theory Spec2Isabelle
  imports Main "HOL-Library.Word" "HOL-Library.Multiset" "HOL-Library.Sublist"
begin

unbundle bit_operations_syntax

section \<open>The main loop of the emulator (main-loop.c)\<close>

text \<open>
  A shallow embedding of \<^verbatim>\<open>main-loop.c\<close>. C pointers (handles, function pointers,
  opaque pointers) are addresses, natural numbers with \<open>0\<close> for \<^verbatim>\<open>NULL\<close>. Every
  function of the source that mutates a global takes the global's value and returns
  the new one.
\<close>

type_synonym HANDLE = nat
type_synonym fnptr = nat
type_synonym voidptr = nat

subsection \<open>Polling handling (the \<^verbatim>\<open>_WIN32\<close> branch)\<close>

text \<open>
  \<^verbatim>\<open>PollingEntry\<close> is a singly linked list hanging off \<^verbatim>\<open>first_polling_entry\<close>; the
  \<^verbatim>\<open>next\<close> pointers are the list structure.
\<close>

record PollingEntry =
  pe_func :: fnptr
  pe_opaque :: voidptr

text \<open>
  \<^verbatim>\<open>qemu_add_polling_cb\<close>: the \<^verbatim>\<open>for\<close> loop walks \<^verbatim>\<open>ppe\<close> to the \<^verbatim>\<open>NULL\<close> link at
  the end of the list and stores the new entry there. The function returns 0.
\<close>

fun link_at_end :: "PollingEntry \<Rightarrow> PollingEntry list \<Rightarrow> PollingEntry list" where
  "link_at_end pe [] = [pe]"
| "link_at_end pe (e # rest) = e # link_at_end pe rest"

definition qemu_add_polling_cb ::
  "fnptr \<Rightarrow> voidptr \<Rightarrow> PollingEntry list \<Rightarrow> int \<times> PollingEntry list" where
  "qemu_add_polling_cb f opq first_polling_entry =
     (0, link_at_end \<lparr>pe_func = f, pe_opaque = opq\<rparr> first_polling_entry)"

text \<open>
  \<^verbatim>\<open>qemu_del_polling_cb\<close>: the first entry with the same function and the same opaque
  pointer is unlinked, and the loop stops there (\<^verbatim>\<open>break\<close>).
\<close>

fun qemu_del_polling_cb ::
  "fnptr \<Rightarrow> voidptr \<Rightarrow> PollingEntry list \<Rightarrow> PollingEntry list" where
  "qemu_del_polling_cb f opq [] = []"
| "qemu_del_polling_cb f opq (pe # rest) =
     (if pe_func pe = f \<and> pe_opaque pe = opq then rest
      else pe # qemu_del_polling_cb f opq rest)"

subsection \<open>Wait objects support (the \<^verbatim>\<open>_WIN32\<close> branch)\<close>

text \<open>
  Modelled from the spec: \<^verbatim>\<open>MAXIMUM_WAIT_OBJECTS\<close> is a constant of the Windows
  headers, which are not part of the repository; the spec gives the table as
  "bounded e.g. 64 entries", the value the Windows SDK defines.
\<close>

definition MAXIMUM_WAIT_OBJECTS :: int where
  "MAXIMUM_WAIT_OBJECTS = 64"

text \<open>
  \<^verbatim>\<open>struct WaitObjects\<close>: a count and four parallel arrays of
  \<^verbatim>\<open>MAXIMUM_WAIT_OBJECTS + 1\<close> slots each.
\<close>

record WaitObjects =
  num :: int
  revents :: "int list"
  events :: "HANDLE list"
  func :: "fnptr list"
  opaque :: "voidptr list"

text \<open>\<^verbatim>\<open>static WaitObjects wait_objects = {0};\<close>\<close>

definition wait_objects_init :: WaitObjects where
  "wait_objects_init =
     \<lparr>num = 0,
      revents = replicate (nat (MAXIMUM_WAIT_OBJECTS + 1)) 0,
      events = replicate (nat (MAXIMUM_WAIT_OBJECTS + 1)) 0,
      func = replicate (nat (MAXIMUM_WAIT_OBJECTS + 1)) 0,
      opaque = replicate (nat (MAXIMUM_WAIT_OBJECTS + 1)) 0\<rparr>"

text \<open>
  The states the C code is defined on: the count is within \<open>0 .. MAXIMUM_WAIT_OBJECTS\<close>
  and the arrays have their declared size, so that every slot the functions below
  touch (at most slot \<open>num\<close>) exists.
\<close>

definition wait_objects_ok :: "WaitObjects \<Rightarrow> bool" where
  "wait_objects_ok w \<longleftrightarrow>
     0 \<le> num w \<and> num w \<le> MAXIMUM_WAIT_OBJECTS \<and>
     length (revents w) = nat (MAXIMUM_WAIT_OBJECTS + 1) \<and>
     length (events w) = nat (MAXIMUM_WAIT_OBJECTS + 1) \<and>
     length (func w) = nat (MAXIMUM_WAIT_OBJECTS + 1) \<and>
     length (opaque w) = nat (MAXIMUM_WAIT_OBJECTS + 1)"

text \<open>\<^verbatim>\<open>qemu_add_wait_object\<close>: the return value and the table after the call.\<close>

definition qemu_add_wait_object ::
  "HANDLE \<Rightarrow> fnptr \<Rightarrow> voidptr \<Rightarrow> WaitObjects \<Rightarrow> int \<times> WaitObjects" where
  "qemu_add_wait_object handle f opq w =
     (if num w \<ge> MAXIMUM_WAIT_OBJECTS then (- 1, w)
      else
        (0, w\<lparr>events := (events w)[nat (num w) := handle],
              func := (func w)[nat (num w) := f],
              opaque := (opaque w)[nat (num w) := opq],
              revents := (revents w)[nat (num w) := 0],
              num := num w + 1\<rparr>))"

text \<open>
  The loop of \<^verbatim>\<open>qemu_del_wait_object\<close>, from index \<open>i\<close> on, with the current value of
  \<^verbatim>\<open>found\<close>: once the handle has been seen, each slot \<open>i\<close> is overwritten with slot
  \<open>i + 1\<close>, in all four arrays.
\<close>

function del_loop :: "HANDLE \<Rightarrow> nat \<Rightarrow> bool \<Rightarrow> WaitObjects \<Rightarrow> bool \<times> WaitObjects" where
  "del_loop handle i found w =
     (if int i < num w then
        (let found' = (if events w ! i = handle then True else found);
             w' = (if found' then
                     w\<lparr>events := (events w)[i := events w ! (i + 1)],
                       func := (func w)[i := func w ! (i + 1)],
                       opaque := (opaque w)[i := opaque w ! (i + 1)],
                       revents := (revents w)[i := revents w ! (i + 1)]\<rparr>
                   else w)
         in del_loop handle (i + 1) found' w')
      else (found, w))"
  by pat_completeness auto
termination
  by (relation "measure (\<lambda>(handle, i, found, w). nat (num w) - i)") auto

declare del_loop.simps [simp del]

text \<open>
  \<^verbatim>\<open>qemu_del_wait_object\<close>. The parameters \<^verbatim>\<open>func\<close> and \<^verbatim>\<open>opaque\<close> are part of the
  signature; the body never reads them.
\<close>

definition qemu_del_wait_object ::
  "HANDLE \<Rightarrow> fnptr \<Rightarrow> voidptr \<Rightarrow> WaitObjects \<Rightarrow> WaitObjects" where
  "qemu_del_wait_object handle f opq w =
     (case del_loop handle 0 False w of
        (found, w') \<Rightarrow> if found then w'\<lparr>num := num w' - 1\<rparr> else w')"

subsection \<open>The registries as sequences of entries\<close>

text \<open>
  The registered wait objects, in table order: the first \<open>num\<close> slots of the four
  arrays, read side by side as (handle, callback, opaque pointer, result).
\<close>

type_synonym wait_entry = "HANDLE \<times> fnptr \<times> voidptr \<times> int"

definition wait_entry_at :: "WaitObjects \<Rightarrow> nat \<Rightarrow> wait_entry" where
  "wait_entry_at w i = (events w ! i, func w ! i, opaque w ! i, revents w ! i)"

definition wait_entries :: "WaitObjects \<Rightarrow> wait_entry list" where
  "wait_entries w = map (wait_entry_at w) [0..<nat (num w)]"

text \<open>
  The specification of a removal: drop the first element that satisfies \<open>P\<close> and keep
  every other element where it is.
\<close>

fun remove_first :: "('a \<Rightarrow> bool) \<Rightarrow> 'a list \<Rightarrow> 'a list" where
  "remove_first P [] = []"
| "remove_first P (x # xs) = (if P x then xs else x # remove_first P xs)"

text \<open>
  An array after the slots \<open>k, \<dots>, n - 1\<close> have each been overwritten with their right
  neighbour: slot \<open>k\<close> is gone, slots \<open>k + 1 .. n\<close> have moved one place to the left,
  and slot \<open>n\<close> is there twice.
\<close>

definition shift_left :: "nat \<Rightarrow> nat \<Rightarrow> 'a list \<Rightarrow> 'a list" where
  "shift_left k n xs = take k xs @ take (n - k) (drop (Suc k) xs) @ drop n xs"

text \<open>
  Sequences of calls to the registration interface of the wait objects, run on the
  table; \<open>wait_returns\<close> lists what the calls of \<^verbatim>\<open>qemu_add_wait_object\<close> returned.
\<close>

datatype wait_op =
    Add_wait_object HANDLE fnptr voidptr
  | Del_wait_object HANDLE fnptr voidptr

fun run_wait_ops :: "wait_op list \<Rightarrow> WaitObjects \<Rightarrow> WaitObjects" where
  "run_wait_ops [] w = w"
| "run_wait_ops (Add_wait_object h f opq # ops) w =
     run_wait_ops ops (snd (qemu_add_wait_object h f opq w))"
| "run_wait_ops (Del_wait_object h f opq # ops) w =
     run_wait_ops ops (qemu_del_wait_object h f opq w)"

fun wait_returns :: "wait_op list \<Rightarrow> WaitObjects \<Rightarrow> int list" where
  "wait_returns [] w = []"
| "wait_returns (Add_wait_object h f opq # ops) w =
     fst (qemu_add_wait_object h f opq w)
     # wait_returns ops (snd (qemu_add_wait_object h f opq w))"
| "wait_returns (Del_wait_object h f opq # ops) w =
     wait_returns ops (qemu_del_wait_object h f opq w)"

text \<open>
  The specification of the same sequences, on the list of the registered entries and
  without the table. An addition is accepted while fewer than
  \<^verbatim>\<open>MAXIMUM_WAIT_OBJECTS\<close> entries are registered: it appends its entry and returns 0;
  otherwise it changes nothing and returns \<open>-1\<close>. A removal drops the first entry
  with its handle. \<open>wait_accepted\<close> lists the entries of the accepted additions,
  \<open>wait_matched\<close> the entries that the removals found, and \<open>wait_requested\<close> the
  entries of all additions, accepted or not.
\<close>

fun spec_wait_ops :: "wait_op list \<Rightarrow> wait_entry list \<Rightarrow> wait_entry list" where
  "spec_wait_ops [] es = es"
| "spec_wait_ops (Add_wait_object h f opq # ops) es =
     spec_wait_ops ops
       (if int (length es) < MAXIMUM_WAIT_OBJECTS then es @ [(h, f, opq, 0)] else es)"
| "spec_wait_ops (Del_wait_object h f opq # ops) es =
     spec_wait_ops ops (remove_first (\<lambda>e. fst e = h) es)"

fun wait_accepted :: "wait_op list \<Rightarrow> wait_entry list \<Rightarrow> wait_entry list" where
  "wait_accepted [] es = []"
| "wait_accepted (Add_wait_object h f opq # ops) es =
     (if int (length es) < MAXIMUM_WAIT_OBJECTS
      then (h, f, opq, 0) # wait_accepted ops (es @ [(h, f, opq, 0)])
      else wait_accepted ops es)"
| "wait_accepted (Del_wait_object h f opq # ops) es =
     wait_accepted ops (remove_first (\<lambda>e. fst e = h) es)"

fun wait_matched :: "wait_op list \<Rightarrow> wait_entry list \<Rightarrow> wait_entry list" where
  "wait_matched [] es = []"
| "wait_matched (Add_wait_object h f opq # ops) es =
     wait_matched ops
       (if int (length es) < MAXIMUM_WAIT_OBJECTS then es @ [(h, f, opq, 0)] else es)"
| "wait_matched (Del_wait_object h f opq # ops) es =
     (case find (\<lambda>e. fst e = h) es of None \<Rightarrow> [] | Some e \<Rightarrow> [e])
     @ wait_matched ops (remove_first (\<lambda>e. fst e = h) es)"

fun spec_wait_returns :: "wait_op list \<Rightarrow> wait_entry list \<Rightarrow> int list" where
  "spec_wait_returns [] es = []"
| "spec_wait_returns (Add_wait_object h f opq # ops) es =
     (if int (length es) < MAXIMUM_WAIT_OBJECTS
      then 0 # spec_wait_returns ops (es @ [(h, f, opq, 0)])
      else - 1 # spec_wait_returns ops es)"
| "spec_wait_returns (Del_wait_object h f opq # ops) es =
     spec_wait_returns ops (remove_first (\<lambda>e. fst e = h) es)"

fun wait_requested :: "wait_op list \<Rightarrow> wait_entry list" where
  "wait_requested [] = []"
| "wait_requested (Add_wait_object h f opq # ops) = (h, f, opq, 0) # wait_requested ops"
| "wait_requested (Del_wait_object h f opq # ops) = wait_requested ops"

text \<open>
  The same for the polling callbacks: run on the list of the code, and specified.
  Every addition appends its entry; a removal drops the first entry with its
  function and its opaque pointer.
\<close>

datatype polling_op =
    Add_polling_cb fnptr voidptr
  | Del_polling_cb fnptr voidptr

fun run_polling_ops :: "polling_op list \<Rightarrow> PollingEntry list \<Rightarrow> PollingEntry list" where
  "run_polling_ops [] pes = pes"
| "run_polling_ops (Add_polling_cb f opq # ops) pes =
     run_polling_ops ops (snd (qemu_add_polling_cb f opq pes))"
| "run_polling_ops (Del_polling_cb f opq # ops) pes =
     run_polling_ops ops (qemu_del_polling_cb f opq pes)"

fun spec_polling_ops :: "polling_op list \<Rightarrow> PollingEntry list \<Rightarrow> PollingEntry list" where
  "spec_polling_ops [] pes = pes"
| "spec_polling_ops (Add_polling_cb f opq # ops) pes =
     spec_polling_ops ops (pes @ [\<lparr>pe_func = f, pe_opaque = opq\<rparr>])"
| "spec_polling_ops (Del_polling_cb f opq # ops) pes =
     spec_polling_ops ops (remove_first (\<lambda>pe. pe_func pe = f \<and> pe_opaque pe = opq) pes)"

fun polling_requested :: "polling_op list \<Rightarrow> PollingEntry list" where
  "polling_requested [] = []"
| "polling_requested (Add_polling_cb f opq # ops) =
     \<lparr>pe_func = f, pe_opaque = opq\<rparr> # polling_requested ops"
| "polling_requested (Del_polling_cb f opq # ops) = polling_requested ops"

fun polling_matched :: "polling_op list \<Rightarrow> PollingEntry list \<Rightarrow> PollingEntry list" where
  "polling_matched [] pes = []"
| "polling_matched (Add_polling_cb f opq # ops) pes =
     polling_matched ops (pes @ [\<lparr>pe_func = f, pe_opaque = opq\<rparr>])"
| "polling_matched (Del_polling_cb f opq # ops) pes =
     (case find (\<lambda>pe. pe_func pe = f \<and> pe_opaque pe = opq) pes of
        None \<Rightarrow> [] | Some pe \<Rightarrow> [pe])
     @ polling_matched ops (remove_first (\<lambda>pe. pe_func pe = f \<and> pe_opaque pe = opq) pes)"

text \<open>A table with two registered wait objects on the same handle.\<close>

definition example_table :: WaitObjects where
  "example_table = \<lparr>num = 2, revents = replicate 65 0, events = 5 # 5 # replicate 63 0,
     func = 10 # 20 # replicate 63 0, opaque = 11 # 21 # replicate 63 0\<rparr>"

subsection \<open>The signal descriptor (the branch without \<^verbatim>\<open>_WIN32\<close>)\<close>

text \<open>
  How a function of this file ends: it returns to its caller with a value, or it
  stops the process (\<^verbatim>\<open>abort\<close>, a failed \<^verbatim>\<open>g_assert\<close>), or it does something C
  gives no meaning to (a write past the end of an array).
\<close>

datatype 'a outcome = Returns 'a | Aborts | Undefined

text \<open>
  \<^verbatim>\<open>sigfd_handler\<close> talks to the operating system through \<^verbatim>\<open>read\<close> and
  \<^verbatim>\<open>sigaction\<close>. What the system answers is given as a script: the replies to the
  successive calls, in the order of the calls. A \<^verbatim>\<open>read\<close> reply carries the return
  value, \<^verbatim>\<open>errno\<close> (which C only defines when the return value is \<open>-1\<close>) and the
  record that was read; a \<^verbatim>\<open>sigaction\<close> reply carries the return value and the
  installed action. Of \<^verbatim>\<open>struct qemu_signalfd_siginfo\<close> the handler reads one field,
  \<^verbatim>\<open>ssi_signo\<close>.
\<close>

datatype errno = EINTR | EAGAIN | EOTHER

record qemu_signalfd_siginfo =
  ssi_signo :: "32 word"

record sigaction =
  sa_flags :: "32 word"
  sa_sigaction :: fnptr
  sa_handler :: fnptr

datatype os_reply =
    Read_reply int errno qemu_signalfd_siginfo
  | Sigaction_reply int sigaction

text \<open>What the handler does that can be seen from outside, in order.\<close>

datatype sig_event =
    Printf_read int
  | Printf_sigaction int
  | Call_sa_sigaction fnptr "32 word"
  | Call_sa_handler fnptr "32 word"

text \<open>
  The inner loop \<^verbatim>\<open>do { len = read(fd, &info, sizeof(info)); } while (len == -1 && errno == EINTR);\<close>
  gives the first reply that is not an interrupted call, and the rest of the script.
  A script that ends, or that holds the reply to another call, has no answer for
  \<^verbatim>\<open>read\<close>: the result is \<open>None\<close>.
\<close>

fun read_retry ::
  "os_reply list \<Rightarrow> ((int \<times> errno \<times> qemu_signalfd_siginfo) \<times> os_reply list) option" where
  "read_retry [] = None"
| "read_retry (Read_reply len e info # rest) =
     (if len = - 1 \<and> e = EINTR then read_retry rest else Some ((len, e, info), rest))"
| "read_retry (Sigaction_reply result action # rest) = None"

text \<open>
  The calls the handler makes for one record once \<^verbatim>\<open>sigaction\<close> has succeeded.
  \<^verbatim>\<open>SA_SIGINFO\<close> is a constant of the system headers and is a parameter here.
\<close>

definition dispatch_signal :: "32 word \<Rightarrow> sigaction \<Rightarrow> 32 word \<Rightarrow> sig_event list" where
  "dispatch_signal SA_SIGINFO action signo =
     (if sa_flags action AND SA_SIGINFO \<noteq> 0 \<and> sa_sigaction action \<noteq> 0
      then [Call_sa_sigaction (sa_sigaction action) signo]
      else if sa_handler action \<noteq> 0 then [Call_sa_handler (sa_handler action) signo]
      else [])"

text \<open>
  \<^verbatim>\<open>sigfd_handler\<close>, given \<^verbatim>\<open>sizeof(info)\<close> (the size of
  \<^verbatim>\<open>struct qemu_signalfd_siginfo\<close>, declared in a header outside the repository),
  \<^verbatim>\<open>SA_SIGINFO\<close> and the script of replies. The result is \<open>None\<close> when the script
  has no reply for a call the handler makes; otherwise it is what the handler did and
  how it ended. Every reply that is consumed shortens the script, so the function is
  total.
\<close>

lemma read_retry_shorter:
  "read_retry script = Some (r, rest) \<Longrightarrow> length rest < length script"
  by (induction script rule: read_retry.induct) (auto split: if_splits)

function sigfd_handler ::
  "int \<Rightarrow> 32 word \<Rightarrow> os_reply list \<Rightarrow> (sig_event list \<times> unit outcome) option" where
  "sigfd_handler sizeof_info SA_SIGINFO script =
     (case read_retry script of
        None \<Rightarrow> None
      | Some ((len, e, info), rest) \<Rightarrow>
          if len = - 1 \<and> e = EAGAIN then Some ([], Returns ())
          else if len \<noteq> sizeof_info then Some ([Printf_read len], Returns ())
          else
            (case rest of
               Sigaction_reply result action # rest' \<Rightarrow>
                 if result \<noteq> 0 then Some ([Printf_sigaction result], Returns ())
                 else
                   (case sigfd_handler sizeof_info SA_SIGINFO rest' of
                      None \<Rightarrow> None
                    | Some (evs, out) \<Rightarrow>
                        Some (dispatch_signal SA_SIGINFO action (ssi_signo info) @ evs, out))
             | _ \<Rightarrow> None))"
  by pat_completeness auto
termination
  by (relation "measure (\<lambda>(sz, fl, script). length script)")
     (auto dest: read_retry_shorter)

declare sigfd_handler.simps [simp del]

subsection \<open>The state of the loop and its collaborators\<close>

text \<open>
  \<^verbatim>\<open>fd_set\<close> is the set of the descriptors that are in it. \<^verbatim>\<open>GPollFD\<close> has the
  fields \<^verbatim>\<open>fd\<close>, \<^verbatim>\<open>events\<close> and \<^verbatim>\<open>revents\<close> (the last two \<^verbatim>\<open>gushort\<close>); the names
  \<open>events\<close> and \<open>revents\<close> are taken by \<^verbatim>\<open>WaitObjects\<close>, so the fields are
  \<open>io_events\<close> and \<open>io_revents\<close> here.
\<close>

type_synonym fd_set = "int set"

record GPollFD =
  fd :: int
  io_events :: "16 word"
  io_revents :: "16 word"

record timeval =
  tv_sec :: int
  tv_usec :: int

definition UINT32_MAX :: "32 word" where
  "UINT32_MAX = 4294967295"

text \<open>\<^verbatim>\<open>ARRAY_SIZE(poll_fds)\<close>, from \<^verbatim>\<open>static GPollFD poll_fds[1024 * 2]\<close>.\<close>

definition POLL_FDS_SIZE :: int where
  "POLL_FDS_SIZE = 1024 * 2"

text \<open>
  The calls that leave \<^verbatim>\<open>main-loop.c\<close>, each with the arguments the properties below
  are about. The state carries the log of these calls, in the order they are made.
\<close>

datatype event =
    Slirp_update_timeout "32 word"
  | Slirp_select_fill int fd_set fd_set fd_set
  | Qemu_iohandler_fill int fd_set fd_set fd_set
  | Qemu_iohandler_poll int
  | Slirp_select_poll bool
  | Qemu_run_all_timers
  | G_main_context_prepare
  | G_main_context_query
  | G_main_context_check
  | G_main_context_dispatch
  | Qemu_mutex_unlock_iothread
  | Qemu_mutex_lock_iothread
  | Select "timeval option"
  | G_poll int "32 word"
  | Polling_func fnptr voidptr
  | Wait_object_func fnptr voidptr
  | Aio_notify nat

text \<open>
  The collaborators are outside the repository (the network stack, the I/O handler
  multiplexer, the timers, GLib, the operating system, the callbacks that were
  registered). Each is a function of its arguments and of the state of everything
  outside this file, \<open>'x\<close>, and gives its results and the new outside state. Also
  taken from outside: whether \<^verbatim>\<open>CONFIG_SLIRP\<close> is defined, the GLib constants
  \<^verbatim>\<open>G_IO_IN\<close>, \<^verbatim>\<open>G_IO_OUT\<close>, \<^verbatim>\<open>G_IO_ERR\<close>, and the value found in an automatic
  variable that was never assigned (\<open>indeterminate\<close>).

  While \<^verbatim>\<open>select\<close> or \<^verbatim>\<open>g_poll\<close> blocks with the global lock released, other threads
  run: what they do to the outside state is part of these two functions. The
  collaborators and the callbacks do not reach back into the variables of
  \<^verbatim>\<open>main-loop.c\<close>.
\<close>

record 'x env =
  CONFIG_SLIRP :: bool
  G_IO_IN :: "16 word"
  G_IO_OUT :: "16 word"
  G_IO_ERR :: "16 word"
  indeterminate :: int
  slirp_update_timeout :: "32 word \<Rightarrow> 'x \<Rightarrow> 32 word \<times> 'x"
  slirp_select_fill ::
    "int \<times> fd_set \<times> fd_set \<times> fd_set \<Rightarrow> 'x \<Rightarrow> (int \<times> fd_set \<times> fd_set \<times> fd_set) \<times> 'x"
  slirp_select_poll :: "fd_set \<times> fd_set \<times> fd_set \<Rightarrow> bool \<Rightarrow> 'x \<Rightarrow> 'x"
  qemu_iohandler_fill ::
    "int \<times> fd_set \<times> fd_set \<times> fd_set \<Rightarrow> 'x \<Rightarrow> (int \<times> fd_set \<times> fd_set \<times> fd_set) \<times> 'x"
  qemu_iohandler_poll :: "fd_set \<times> fd_set \<times> fd_set \<Rightarrow> int \<Rightarrow> 'x \<Rightarrow> 'x"
  qemu_run_all_timers :: "'x \<Rightarrow> 'x"
  g_main_context_prepare :: "'x \<Rightarrow> int \<times> 'x"
  g_main_context_query ::
    "int \<Rightarrow> GPollFD list \<Rightarrow> 'x \<Rightarrow> (int \<times> 32 word \<times> GPollFD list) \<times> 'x"
  g_main_context_check :: "int \<Rightarrow> GPollFD list \<Rightarrow> int \<Rightarrow> 'x \<Rightarrow> bool \<times> 'x"
  g_main_context_dispatch :: "'x \<Rightarrow> 'x"
  select ::
    "int \<Rightarrow> fd_set \<times> fd_set \<times> fd_set \<Rightarrow> timeval option \<Rightarrow> 'x
      \<Rightarrow> (int \<times> fd_set \<times> fd_set \<times> fd_set) \<times> 'x"
  g_poll :: "GPollFD list \<Rightarrow> int \<Rightarrow> 32 word \<Rightarrow> 'x \<Rightarrow> (int \<times> GPollFD list) \<times> 'x"
  polling_func :: "fnptr \<Rightarrow> voidptr \<Rightarrow> 'x \<Rightarrow> int \<times> 'x"
  wait_object_func :: "fnptr \<Rightarrow> voidptr \<Rightarrow> 'x \<Rightarrow> 'x"
  aio_notify :: "nat \<Rightarrow> 'x \<Rightarrow> 'x"
  qemu_mutex_unlock_iothread :: "'x \<Rightarrow> 'x"
  qemu_mutex_lock_iothread :: "'x \<Rightarrow> 'x"

text \<open>
  The file-scope variables of \<^verbatim>\<open>main-loop.c\<close>, the outside state, and the log of
  calls.
\<close>

record 'x main_loop =
  qemu_aio_context :: nat
  nfds :: int
  rfds :: fd_set
  wfds :: fd_set
  xfds :: fd_set
  poll_fds :: "GPollFD list"
  n_poll_fds :: int
  max_priority :: int
  first_polling_entry :: "PollingEntry list"
  wait_objects :: WaitObjects
  world :: 'x
  trace :: "event list"

text \<open>The variables as the C program starts with them: all zero.\<close>

definition main_loop_init :: "'x \<Rightarrow> 'x main_loop" where
  "main_loop_init x =
     \<lparr>qemu_aio_context = 0, nfds = 0, rfds = {}, wfds = {}, xfds = {},
      poll_fds = replicate (nat POLL_FDS_SIZE) \<lparr>fd = 0, io_events = 0, io_revents = 0\<rparr>,
      n_poll_fds = 0, max_priority = 0, first_polling_entry = [],
      wait_objects = wait_objects_init, world = x, trace = []\<rparr>"

definition emit :: "event \<Rightarrow> 'x main_loop \<Rightarrow> 'x main_loop" where
  "emit e s = s\<lparr>trace := trace s @ [e]\<rparr>"

text \<open>The platform the file is compiled for: \<^verbatim>\<open>#ifndef _WIN32\<close> and its \<^verbatim>\<open>#else\<close>.\<close>

datatype platform = Posix | Win32

subsection \<open>\<^verbatim>\<open>qemu_notify_event\<close>\<close>

definition qemu_notify_event :: "'x env \<Rightarrow> 'x main_loop \<Rightarrow> 'x main_loop" where
  "qemu_notify_event env s =
     (if qemu_aio_context s = 0 then s
      else emit (Aio_notify (qemu_aio_context s))
             (s\<lparr>world := aio_notify env (qemu_aio_context s) (world s)\<rparr>))"

subsection \<open>\<^verbatim>\<open>glib_select_fill\<close> and \<^verbatim>\<open>glib_select_poll\<close>\<close>

text \<open>One round of the loop over \<^verbatim>\<open>poll_fds\<close> in \<^verbatim>\<open>glib_select_fill\<close>.\<close>

definition fill_fd ::
  "'x env \<Rightarrow> GPollFD \<Rightarrow> int \<times> fd_set \<times> fd_set \<times> fd_set \<Rightarrow> int \<times> fd_set \<times> fd_set \<times> fd_set" where
  "fill_fd env p = (\<lambda>(max_fd, r, w, x).
     (let (max_fd, r) =
            (if io_events p AND G_IO_IN env \<noteq> 0 then (max max_fd (fd p), insert (fd p) r)
             else (max_fd, r));
          (max_fd, w) =
            (if io_events p AND G_IO_OUT env \<noteq> 0 then (max max_fd (fd p), insert (fd p) w)
             else (max_fd, w));
          (max_fd, x) =
            (if io_events p AND G_IO_ERR env \<noteq> 0 then (max max_fd (fd p), insert (fd p) x)
             else (max_fd, x))
      in (max_fd, r, w, x)))"

text \<open>
  \<^verbatim>\<open>glib_select_fill\<close>. The pointer parameters are values in and values out: the
  descriptor sets with the maximum, and \<^verbatim>\<open>*cur_timeout\<close>. The assertion compares an
  \<^verbatim>\<open>int\<close> with a \<^verbatim>\<open>size_t\<close>, so a negative count fails it too. In
  \<^verbatim>\<open>timeout < *cur_timeout\<close> the \<^verbatim>\<open>int\<close> is converted to \<^verbatim>\<open>uint32_t\<close>: the comparison
  is the one of 32-bit words.
\<close>

definition glib_select_fill ::
  "'x env \<Rightarrow> int \<times> fd_set \<times> fd_set \<times> fd_set \<Rightarrow> 32 word \<Rightarrow> 'x main_loop
    \<Rightarrow> ((int \<times> fd_set \<times> fd_set \<times> fd_set) \<times> 32 word) outcome \<times> 'x main_loop" where
  "glib_select_fill env sets cur_timeout s =
     (case g_main_context_prepare env (world s) of (prio, x1) \<Rightarrow>
        let s1 = emit G_main_context_prepare (s\<lparr>max_priority := prio, world := x1\<rparr>) in
        (case g_main_context_query env (max_priority s1) (poll_fds s1) (world s1) of
           ((n, timeout, fds), x2) \<Rightarrow>
             let s2 = emit G_main_context_query
                        (s1\<lparr>n_poll_fds := n, poll_fds := fds, world := x2\<rparr>) in
             if \<not> (0 \<le> n \<and> n \<le> POLL_FDS_SIZE) then (Aborts, s2)
             else
               (Returns
                  (fold (fill_fd env) (take (nat (n_poll_fds s2)) (poll_fds s2)) sets,
                   if 0 \<le> sint timeout \<and> timeout < cur_timeout then timeout
                   else cur_timeout),
                s2)))"

text \<open>One round of the loop in \<^verbatim>\<open>glib_select_poll\<close>.\<close>

definition poll_fd :: "'x env \<Rightarrow> fd_set \<times> fd_set \<times> fd_set \<Rightarrow> GPollFD \<Rightarrow> GPollFD" where
  "poll_fd env = (\<lambda>(r, w, x) p.
     (let p = (if io_events p AND G_IO_IN env \<noteq> 0 \<and> fd p \<in> r
               then p\<lparr>io_revents := io_revents p OR G_IO_IN env\<rparr> else p);
          p = (if io_events p AND G_IO_OUT env \<noteq> 0 \<and> fd p \<in> w
               then p\<lparr>io_revents := io_revents p OR G_IO_OUT env\<rparr> else p);
          p = (if io_events p AND G_IO_ERR env \<noteq> 0 \<and> fd p \<in> x
               then p\<lparr>io_revents := io_revents p OR G_IO_ERR env\<rparr> else p)
      in p))"

text \<open>
  \<^verbatim>\<open>if (g_main_context_check(...)) { g_main_context_dispatch(context); }\<close>, which ends
  \<^verbatim>\<open>glib_select_poll\<close> and stands again in the \<^verbatim>\<open>_WIN32\<close> \<^verbatim>\<open>os_host_main_loop_wait\<close>.
\<close>

definition check_and_dispatch :: "'x env \<Rightarrow> 'x main_loop \<Rightarrow> 'x main_loop" where
  "check_and_dispatch env s =
     (case g_main_context_check env (max_priority s) (poll_fds s) (n_poll_fds s) (world s) of
        (work, x1) \<Rightarrow>
          let s1 = emit G_main_context_check (s\<lparr>world := x1\<rparr>) in
          if work
          then emit G_main_context_dispatch
                 (s1\<lparr>world := g_main_context_dispatch env (world s1)\<rparr>)
          else s1)"

definition glib_select_poll ::
  "'x env \<Rightarrow> fd_set \<times> fd_set \<times> fd_set \<Rightarrow> bool \<Rightarrow> 'x main_loop \<Rightarrow> 'x main_loop" where
  "glib_select_poll env sets err s =
     (let s1 = (if \<not> err
                then s\<lparr>poll_fds :=
                         map (poll_fd env sets) (take (nat (n_poll_fds s)) (poll_fds s))
                         @ drop (nat (n_poll_fds s)) (poll_fds s)\<rparr>
                else s)
      in check_and_dispatch env s1)"

subsection \<open>\<^verbatim>\<open>os_host_main_loop_wait\<close>, without \<^verbatim>\<open>_WIN32\<close>\<close>

text \<open>
  The argument of \<^verbatim>\<open>select\<close>: \<^verbatim>\<open>tvarg\<close> stays \<^verbatim>\<open>NULL\<close> unless
  \<^verbatim>\<open>timeout < UINT32_MAX\<close>, and then holds the seconds and microseconds.
\<close>

definition timeval_arg :: "32 word \<Rightarrow> timeval option" where
  "timeval_arg timeout =
     (if timeout < UINT32_MAX
      then Some \<lparr>tv_sec = uint (timeout div 1000), tv_usec = uint ((timeout mod 1000) * 1000)\<rparr>
      else None)"

definition unlock_iothread :: "'x env \<Rightarrow> 'x main_loop \<Rightarrow> 'x main_loop" where
  "unlock_iothread env s =
     emit Qemu_mutex_unlock_iothread (s\<lparr>world := qemu_mutex_unlock_iothread env (world s)\<rparr>)"

definition lock_iothread :: "'x env \<Rightarrow> 'x main_loop \<Rightarrow> 'x main_loop" where
  "lock_iothread env s =
     emit Qemu_mutex_lock_iothread (s\<lparr>world := qemu_mutex_lock_iothread env (world s)\<rparr>)"

definition os_host_main_loop_wait_posix ::
  "'x env \<Rightarrow> 32 word \<Rightarrow> 'x main_loop \<Rightarrow> int outcome \<times> 'x main_loop" where
  "os_host_main_loop_wait_posix env timeout s =
     (case glib_select_fill env (nfds s, rfds s, wfds s, xfds s) timeout s of
        (Returns ((max_fd, r, w, x), timeout), s1) \<Rightarrow>
          let s2 = s1\<lparr>nfds := max_fd, rfds := r, wfds := w, xfds := x\<rparr>;
              tvarg = timeval_arg timeout;
              s3 = (if timeout > 0 then unlock_iothread env s2 else s2)
          in
          (case select env (nfds s3 + 1) (rfds s3, wfds s3, xfds s3) tvarg (world s3) of
             ((ret, r', w', x'), x4) \<Rightarrow>
               let s4 = emit (Select tvarg)
                          (s3\<lparr>rfds := r', wfds := w', xfds := x', world := x4\<rparr>);
                   s5 = (if timeout > 0 then lock_iothread env s4 else s4)
               in (Returns ret,
                   glib_select_poll env (rfds s5, wfds s5, xfds s5) (ret < 0) s5))
      | (Aborts, s1) \<Rightarrow> (Aborts, s1)
      | (Undefined, s1) \<Rightarrow> (Undefined, s1))"

subsection \<open>\<^verbatim>\<open>os_host_main_loop_wait\<close>, with \<^verbatim>\<open>_WIN32\<close>\<close>

text \<open>
  The first loop: every polling callback is called and the results are or-ed
  together.
\<close>

fun polling_loop ::
  "'x env \<Rightarrow> PollingEntry list \<Rightarrow> int \<Rightarrow> 'x main_loop \<Rightarrow> int \<times> 'x main_loop" where
  "polling_loop env [] ret s = (ret, s)"
| "polling_loop env (pe # rest) ret s =
     (case polling_func env (pe_func pe) (pe_opaque pe) (world s) of
        (r, x1) \<Rightarrow>
          polling_loop env rest (ret OR r)
            (emit (Polling_func (pe_func pe) (pe_opaque pe)) (s\<lparr>world := x1\<rparr>)))"

text \<open>
  The loop that puts one entry per wait object behind the entries of GLib:
  \<^verbatim>\<open>poll_fds[n_poll_fds + i].fd = (DWORD_PTR)w->events[i]; poll_fds[n_poll_fds + i].events = G_IO_IN;\<close>
\<close>

definition add_wait_fds :: "'x env \<Rightarrow> WaitObjects \<Rightarrow> nat \<Rightarrow> GPollFD list \<Rightarrow> GPollFD list" where
  "add_wait_fds env w n fds =
     fold (\<lambda>i fds. fds[n + i := (fds ! (n + i))\<lparr>fd := int (events w ! i), io_events := G_IO_IN env\<rparr>])
       [0..<nat (num w)] fds"

text \<open>
  The two loops after a positive \<^verbatim>\<open>g_poll\<close>: the results are copied into
  \<^verbatim>\<open>w->revents\<close>, then every wait object with a result and a callback has its callback
  called, in table order.
\<close>

definition copy_revents :: "WaitObjects \<Rightarrow> nat \<Rightarrow> GPollFD list \<Rightarrow> WaitObjects" where
  "copy_revents w n fds =
     w\<lparr>revents := map (\<lambda>i. uint (io_revents (fds ! (n + i)))) [0..<nat (num w)]
                   @ drop (nat (num w)) (revents w)\<rparr>"

definition wait_callbacks :: "'x env \<Rightarrow> WaitObjects \<Rightarrow> 'x main_loop \<Rightarrow> 'x main_loop" where
  "wait_callbacks env w s =
     fold (\<lambda>i s. if revents w ! i \<noteq> 0 \<and> func w ! i \<noteq> 0
                  then emit (Wait_object_func (func w ! i) (opaque w ! i))
                         (s\<lparr>world := wait_object_func env (func w ! i) (opaque w ! i) (world s)\<rparr>)
                  else s)
       [0..<nat (num w)] s"

text \<open>
  \<^verbatim>\<open>os_host_main_loop_wait\<close>. Writing \<^verbatim>\<open>poll_fds[n_poll_fds + i]\<close> is only defined while
  \<^verbatim>\<open>n_poll_fds + w->num\<close> stays within the array. \<^verbatim>\<open>poll_timeout = timeout\<close> converts
  \<^verbatim>\<open>uint32_t\<close> to \<^verbatim>\<open>gint\<close> and keeps the 32 bits, so \<^verbatim>\<open>poll_timeout\<close> is a 32-bit word
  read as signed. \<^verbatim>\<open>select_ret\<close> is only assigned when \<^verbatim>\<open>nfds >= 0\<close>. The assignment
  \<^verbatim>\<open>timeout = 0\<close> changes the parameter, a local variable that nothing reads
  afterwards: \<open>timeout_after\<close> is its value when the function returns.
\<close>

definition os_host_main_loop_wait_win32 ::
  "'x env \<Rightarrow> 32 word \<Rightarrow> 'x main_loop \<Rightarrow> int outcome \<times> 'x main_loop" where
  "os_host_main_loop_wait_win32 env timeout s =
     (case polling_loop env (first_polling_entry s) 0 s of (ret, s0) \<Rightarrow>
        if ret \<noteq> 0 then (Returns ret, s0)
        else
          (case g_main_context_prepare env (world s0) of (prio, x1) \<Rightarrow>
             let s1 = emit G_main_context_prepare (s0\<lparr>max_priority := prio, world := x1\<rparr>) in
             (case g_main_context_query env (max_priority s1) (poll_fds s1) (world s1) of
                ((n, poll_timeout, fds), x2) \<Rightarrow>
                  let s2 = emit G_main_context_query
                             (s1\<lparr>n_poll_fds := n, poll_fds := fds, world := x2\<rparr>);
                      w = wait_objects s2
                  in
                  if \<not> (0 \<le> n \<and> n \<le> POLL_FDS_SIZE) then (Aborts, s2)
                  else if n + num w > POLL_FDS_SIZE then (Undefined, s2)
                  else
                    let s3 = s2\<lparr>poll_fds := add_wait_fds env w (nat n) (poll_fds s2)\<rparr>;
                        poll_timeout =
                          (if sint poll_timeout < 0 \<or> timeout < poll_timeout then timeout
                           else poll_timeout);
                        s4 = unlock_iothread env s3
                    in
                    (case g_poll env (poll_fds s4) (n_poll_fds s4 + num w) poll_timeout
                            (world s4) of
                       ((g_poll_ret, fds'), x5) \<Rightarrow>
                         let s5 = emit (G_poll (n_poll_fds s4 + num w) poll_timeout)
                                    (s4\<lparr>poll_fds := fds', world := x5\<rparr>);
                             s6 = lock_iothread env s5;
                             s7 = (if g_poll_ret > 0
                                   then
                                     let w' = copy_revents (wait_objects s6)
                                                (nat (n_poll_fds s6)) (poll_fds s6)
                                     in wait_callbacks env w' (s6\<lparr>wait_objects := w'\<rparr>)
                                   else s6);
                             s8 = check_and_dispatch env s7
                         in
                         if nfds s8 \<ge> 0 then
                           (case select env (nfds s8 + 1) (rfds s8, wfds s8, xfds s8)
                                   (Some \<lparr>tv_sec = 0, tv_usec = 0\<rparr>) (world s8) of
                              ((select_ret, r', w', x'), x9) \<Rightarrow>
                                let s9 = emit (Select (Some \<lparr>tv_sec = 0, tv_usec = 0\<rparr>))
                                           (s8\<lparr>rfds := r', wfds := w', xfds := x', world := x9\<rparr>);
                                    timeout_after = (if select_ret \<noteq> 0 then 0 else timeout)
                                in (Returns (if select_ret \<noteq> 0 \<or> g_poll_ret \<noteq> 0 then 1 else 0),
                                    s9))
                         else
                           (Returns (if indeterminate env \<noteq> 0 \<or> g_poll_ret \<noteq> 0 then 1 else 0),
                            s8)))))"

definition os_host_main_loop_wait ::
  "'x env \<Rightarrow> platform \<Rightarrow> 32 word \<Rightarrow> 'x main_loop \<Rightarrow> int outcome \<times> 'x main_loop" where
  "os_host_main_loop_wait env pf timeout s =
     (case pf of
        Posix \<Rightarrow> os_host_main_loop_wait_posix env timeout s
      | Win32 \<Rightarrow> os_host_main_loop_wait_win32 env timeout s)"

subsection \<open>\<^verbatim>\<open>main_loop_wait\<close>\<close>

text \<open>
  \<^verbatim>\<open>main_loop_wait\<close>. Whatever way \<^verbatim>\<open>os_host_main_loop_wait\<close> ends without returning
  ends \<^verbatim>\<open>main_loop_wait\<close> there.
\<close>

definition main_loop_wait ::
  "'x env \<Rightarrow> platform \<Rightarrow> int \<Rightarrow> 'x main_loop \<Rightarrow> int outcome \<times> 'x main_loop" where
  "main_loop_wait env pf nonblocking s =
     (let timeout = (if nonblocking \<noteq> 0 then 0 else UINT32_MAX);
          s0 = s\<lparr>nfds := - 1, rfds := {}, wfds := {}, xfds := {}\<rparr>;
          (timeout, s2) =
            (if CONFIG_SLIRP env then
               (case slirp_update_timeout env timeout (world s0) of (t, x1) \<Rightarrow>
                  let s1 = emit (Slirp_update_timeout timeout) (s0\<lparr>world := x1\<rparr>) in
                  (case slirp_select_fill env (nfds s1, rfds s1, wfds s1, xfds s1) (world s1) of
                     ((m, r, w, x), x2) \<Rightarrow>
                       (t, emit (Slirp_select_fill (nfds s1) (rfds s1) (wfds s1) (xfds s1))
                             (s1\<lparr>nfds := m, rfds := r, wfds := w, xfds := x, world := x2\<rparr>))))
             else (timeout, s0))
      in
      (case qemu_iohandler_fill env (nfds s2, rfds s2, wfds s2, xfds s2) (world s2) of
         ((m, r, w, x), x3) \<Rightarrow>
           let s3 = emit (Qemu_iohandler_fill (nfds s2) (rfds s2) (wfds s2) (xfds s2))
                      (s2\<lparr>nfds := m, rfds := r, wfds := w, xfds := x, world := x3\<rparr>)
           in
           (case os_host_main_loop_wait env pf timeout s3 of
              (Returns ret, s4) \<Rightarrow>
                let s5 = emit (Qemu_iohandler_poll ret)
                           (s4\<lparr>world := qemu_iohandler_poll env (rfds s4, wfds s4, xfds s4) ret
                                           (world s4)\<rparr>);
                    s6 = (if CONFIG_SLIRP env
                          then emit (Slirp_select_poll (ret < 0))
                                 (s5\<lparr>world := slirp_select_poll env (rfds s5, wfds s5, xfds s5)
                                                 (ret < 0) (world s5)\<rparr>)
                          else s5);
                    s7 = emit Qemu_run_all_timers
                           (s6\<lparr>world := qemu_run_all_timers env (world s6)\<rparr>)
                in (Returns ret, s7)
            | (Aborts, s4) \<Rightarrow> (Aborts, s4)
            | (Undefined, s4) \<Rightarrow> (Undefined, s4))))"

subsection \<open>Reading the log of calls\<close>

text \<open>
  What the check of GLib and the dispatch that may follow add to the log.
\<close>

definition dispatch_events :: "bool \<Rightarrow> event list" where
  "dispatch_events work = G_main_context_check # (if work then [G_main_context_dispatch] else [])"

text \<open>
  The callbacks of the wait objects with indices \<open>is\<close> that are called: those with a
  result and a callback.
\<close>

definition wait_callback_events :: "WaitObjects \<Rightarrow> nat list \<Rightarrow> event list" where
  "wait_callback_events w is =
     map (\<lambda>i. Wait_object_func (func w ! i) (opaque w ! i))
       (filter (\<lambda>i. revents w ! i \<noteq> 0 \<and> func w ! i \<noteq> 0) is)"

text \<open>
  A log respects the global lock, held or not at its start, when the lock is only
  released while held and only taken while released, when every call other than
  \<^verbatim>\<open>select\<close> is made with the lock held, and when the lock is held at the end.
\<close>

fun lock_run :: "bool \<Rightarrow> event list \<Rightarrow> bool" where
  "lock_run held [] = held"
| "lock_run held (Qemu_mutex_unlock_iothread # es) = (held \<and> lock_run False es)"
| "lock_run held (Qemu_mutex_lock_iothread # es) = (\<not> held \<and> lock_run True es)"
| "lock_run held (Select tv # es) = lock_run held es"
| "lock_run held (e # es) = (held \<and> lock_run held es)"

text \<open>
  The call a platform blocks in: \<^verbatim>\<open>select\<close> without \<^verbatim>\<open>_WIN32\<close>, \<^verbatim>\<open>g_poll\<close> with it
  (where \<^verbatim>\<open>select\<close> is only called with a zero timeout).
\<close>

fun is_blocking_wait :: "platform \<Rightarrow> event \<Rightarrow> bool" where
  "is_blocking_wait Posix (Select tv) = True"
| "is_blocking_wait Win32 (G_poll n t) = True"
| "is_blocking_wait pf e = False"

subsection \<open>A concrete environment\<close>

text \<open>
  Collaborators to run the loop with: the network stack caps the timeout at one
  second and has no descriptors, the I/O handlers wait for input on descriptor 3,
  GLib has no sources and no opinion on the timeout (\<open>-1\<close>), \<^verbatim>\<open>select\<close> finds one
  descriptor ready, \<^verbatim>\<open>g_poll\<close> finds none, and nothing outside changes.
\<close>

definition example_env :: "unit env" where
  "example_env =
     \<lparr>CONFIG_SLIRP = True, G_IO_IN = 1, G_IO_OUT = 4, G_IO_ERR = 8, indeterminate = 0,
      slirp_update_timeout = (\<lambda>t x. (min t 1000, x)),
      slirp_select_fill = (\<lambda>sets x. (sets, x)),
      slirp_select_poll = (\<lambda>sets err x. x),
      qemu_iohandler_fill = (\<lambda>(m, r, w, xs) x. ((max m 3, insert 3 r, w, xs), x)),
      qemu_iohandler_poll = (\<lambda>sets ret x. x),
      qemu_run_all_timers = (\<lambda>x. x),
      g_main_context_prepare = (\<lambda>x. (0, x)),
      g_main_context_query = (\<lambda>prio fds x. ((0, - 1, fds), x)),
      g_main_context_check = (\<lambda>prio fds n x. (False, x)),
      g_main_context_dispatch = (\<lambda>x. x),
      select = (\<lambda>n sets tv x. ((1, sets), x)),
      g_poll = (\<lambda>fds n t x. ((0, fds), x)),
      polling_func = (\<lambda>f p x. (0, x)),
      wait_object_func = (\<lambda>f p x. x),
      aio_notify = (\<lambda>ctx x. x),
      qemu_mutex_unlock_iothread = (\<lambda>x. x),
      qemu_mutex_lock_iothread = (\<lambda>x. x)\<rparr>"

text \<open>
  Collaborators that leave their mark: the outside state is the list of the calls
  made so far, each collaborator adding its own number. The network stack asks for
  output on descriptor 5, the I/O handlers for input on descriptor 3, \<^verbatim>\<open>select\<close>
  fails with \<open>-1\<close>, and GLib always has work to dispatch.
\<close>

definition ordered_env :: "nat list env" where
  "ordered_env =
     \<lparr>CONFIG_SLIRP = True, G_IO_IN = 1, G_IO_OUT = 4, G_IO_ERR = 8, indeterminate = 0,
      slirp_update_timeout = (\<lambda>t x. (min t 1000, x @ [1])),
      slirp_select_fill = (\<lambda>(m, r, w, xs) x. ((max m 5, r, insert 5 w, xs), x @ [2])),
      slirp_select_poll = (\<lambda>sets err x. x @ [12]),
      qemu_iohandler_fill = (\<lambda>(m, r, w, xs) x. ((max m 3, insert 3 r, w, xs), x @ [3])),
      qemu_iohandler_poll = (\<lambda>sets ret x. x @ [11]),
      qemu_run_all_timers = (\<lambda>x. x @ [13]),
      g_main_context_prepare = (\<lambda>x. (0, x @ [4])),
      g_main_context_query = (\<lambda>prio fds x. ((0, - 1, fds), x @ [5])),
      g_main_context_check = (\<lambda>prio fds n x. (True, x @ [9])),
      g_main_context_dispatch = (\<lambda>x. x @ [10]),
      select = (\<lambda>n sets tv x. ((- 1, sets), x @ [7])),
      g_poll = (\<lambda>fds n t x. ((0, fds), x @ [14])),
      polling_func = (\<lambda>f p x. (0, x @ [15])),
      wait_object_func = (\<lambda>f p x. x @ [16]),
      aio_notify = (\<lambda>ctx x. x @ [17]),
      qemu_mutex_unlock_iothread = (\<lambda>x. x @ [6]),
      qemu_mutex_lock_iothread = (\<lambda>x. x @ [8])\<rparr>"

section \<open>Properties\<close>

subsection \<open>The registries\<close>


lemma shift_left_same: "shift_left n n xs = xs"
  by (simp add: shift_left_def)

lemma length_shift_left: "k \<le> n \<Longrightarrow> n < length xs \<Longrightarrow> length (shift_left k n xs) = length xs"
  by (simp add: shift_left_def)

lemma shift_left_step:
  assumes "i < n" "n < length xs"
  shows "shift_left (Suc i) n (xs[i := xs ! Suc i]) = shift_left i n xs"
proof -
  have a: "take (Suc i) (xs[i := xs ! Suc i]) = take i xs @ [xs ! Suc i]"
    using assms by (simp add: take_Suc_conv_app_nth)
  have b: "take (n - i) (drop (Suc i) xs) = xs ! Suc i # take (n - Suc i) (drop (Suc (Suc i)) xs)"
  proof -
    have "drop (Suc i) xs = xs ! Suc i # drop (Suc (Suc i)) xs"
      using assms by (simp add: Cons_nth_drop_Suc)
    moreover have "n - i = Suc (n - Suc i)" using assms by simp
    ultimately show ?thesis by simp
  qed
  show ?thesis
    using assms by (simp add: shift_left_def a b)
qed

lemma del_loop_found:
  "int i \<le> num w \<Longrightarrow> nat (num w) < length (events w) \<Longrightarrow> nat (num w) < length (func w) \<Longrightarrow>
   nat (num w) < length (opaque w) \<Longrightarrow> nat (num w) < length (revents w) \<Longrightarrow>
   del_loop handle i True w =
     (True, w\<lparr>events := shift_left i (nat (num w)) (events w),
              func := shift_left i (nat (num w)) (func w),
              opaque := shift_left i (nat (num w)) (opaque w),
              revents := shift_left i (nat (num w)) (revents w)\<rparr>)"
proof (induction handle i "True" w rule: del_loop.induct)
  case (1 handle i w)
  show ?case
  proof (cases "int i < num w")
    case False
    with 1(2) have "i = nat (num w)" by simp
    then show ?thesis by (subst del_loop.simps) (simp add: shift_left_same)
  next
    case True
    then have lt: "i < nat (num w)" by simp
    show ?thesis
      apply (subst del_loop.simps)
      using True lt 1 
      apply (simp add: shift_left_step Let_def)
      done
  qed
qed

lemma del_loop_absent:
  "\<not> found \<Longrightarrow> \<forall>j. i \<le> j \<and> int j < num w \<longrightarrow> events w ! j \<noteq> handle \<Longrightarrow>
   del_loop handle i found w = (False, w)"
proof (induction handle i found w rule: del_loop.induct)
  case (1 handle i found w)
  show ?case
  proof (cases "int i < num w")
    case False
    then show ?thesis using "1.prems" by (simp add: del_loop.simps [of handle i False w])
  next
    case True
    with "1.prems" have ne: "events w ! i \<noteq> handle" by simp
    have "del_loop handle (i + 1) False w = (False, w)"
      using "1.IH" [of False w] "1.prems" True ne by simp
    then show ?thesis
      using True ne "1.prems" by (simp add: del_loop.simps [of handle i False w])
  qed
qed

lemma del_loop_first:
  "\<not> found \<Longrightarrow> i \<le> k \<Longrightarrow> int k < num w \<Longrightarrow> events w ! k = handle \<Longrightarrow>
   \<forall>j. i \<le> j \<and> j < k \<longrightarrow> events w ! j \<noteq> handle \<Longrightarrow>
   del_loop handle i found w = del_loop handle k True w"
proof (induction handle i found w rule: del_loop.induct)
  case (1 handle i found w)
  show ?case
  proof (cases "i = k")
    case True
    then show ?thesis
      using "1.prems"
      by (simp add: del_loop.simps [of handle k False w] del_loop.simps [of handle k True w])
  next
    case False
    with "1.prems" have lt: "i < k" by simp
    with "1.prems" have ne: "events w ! i \<noteq> handle" by simp
    have ilt: "int i < num w" using lt "1.prems" by simp
    have "del_loop handle (i + 1) False w = del_loop handle k True w"
      using "1.IH" [of False w] "1.prems" lt ne ilt by simp
    then show ?thesis
      using ilt ne "1.prems" by (simp add: del_loop.simps [of handle i False w])
  qed
qed


lemma nth_shift_left:
  "k \<le> n \<Longrightarrow> n < length xs \<Longrightarrow>
   shift_left k n xs ! i = (if k \<le> i \<and> i < n then xs ! Suc i else xs ! i)"
proof -
  assume kn: "k \<le> n" and n: "n < length xs"
  have l1: "length (take k xs) = k" using kn n by simp
  have l2: "length (take (n - k) (drop (Suc k) xs)) = n - k" using kn n by simp
  consider "i < k" | "k \<le> i" "i < n" | "n \<le> i" by linarith
  then show ?thesis
  proof cases
    case 1
    then show ?thesis using kn n by (simp add: shift_left_def nth_append)
  next
    case 2
    then have "shift_left k n xs ! i = take (n - k) (drop (Suc k) xs) ! (i - k)"
      by (simp add: shift_left_def nth_append l1 l2 del: length_take length_drop)
    also have "\<dots> = xs ! Suc i" using 2 n by simp
    finally show ?thesis using 2 by simp
  next
    case 3
    then have "shift_left k n xs ! i = drop n xs ! (i - n)"
      using kn by (simp add: shift_left_def nth_append l1 l2 del: length_take length_drop)
    also have "\<dots> = xs ! i" using 3 n by simp
    finally show ?thesis using 3 by simp
  qed
qed

lemma remove_first_absent: "\<forall>x \<in> set xs. \<not> P x \<Longrightarrow> remove_first P xs = xs"
  by (induction xs) auto

lemma remove_first_at:
  "k < length xs \<Longrightarrow> P (xs ! k) \<Longrightarrow> \<forall>j < k. \<not> P (xs ! j) \<Longrightarrow>
   remove_first P xs = take k xs @ drop (Suc k) xs"
proof (induction xs arbitrary: k)
  case Nil
  then show ?case by simp
next
  case (Cons x xs)
  show ?case
  proof (cases k)
    case 0
    with Cons.prems show ?thesis by simp
  next
    case (Suc k')
    with Cons.prems have nx: "\<not> P x" by auto
    have "remove_first P xs = take k' xs @ drop (Suc k') xs"
      using Cons.prems Suc by (intro Cons.IH) auto
    with nx Suc show ?thesis by simp
  qed
qed

lemma first_index_ex:
  assumes "\<exists>j < n. Q (j::nat)"
  obtains k where "k < n" "Q k" "\<forall>j < k. \<not> Q j"
proof -
  define k where "k = (LEAST j. Q j)"
  from assms obtain j where j: "j < n" "Q j" by blast
  have "Q k" unfolding k_def using j(2) by (rule LeastI)
  moreover have "k \<le> j" unfolding k_def using j(2) by (rule Least_le)
  moreover have "\<forall>i < k. \<not> Q i" unfolding k_def using not_less_Least by blast
  ultimately show ?thesis using j(1) by (intro that [of k]) auto
qed

lemma del_absent:
  assumes "\<forall>j. int j < num w \<longrightarrow> events w ! j \<noteq> handle"
  shows "qemu_del_wait_object handle f opq w = w"
  using del_loop_absent [of False 0 w handle] assms
  by (simp add: qemu_del_wait_object_def)

lemma del_present:
  assumes ok: "wait_objects_ok w"
    and k: "int k < num w" "events w ! k = handle" "\<forall>j < k. events w ! j \<noteq> handle"
  shows "qemu_del_wait_object handle f opq w =
     w\<lparr>events := shift_left k (nat (num w)) (events w),
       func := shift_left k (nat (num w)) (func w),
       opaque := shift_left k (nat (num w)) (opaque w),
       revents := shift_left k (nat (num w)) (revents w),
       num := num w - 1\<rparr>"
proof -
  have len: "nat (num w) < length (events w)" "nat (num w) < length (func w)"
    "nat (num w) < length (opaque w)" "nat (num w) < length (revents w)"
    using ok by (auto simp: wait_objects_ok_def)
  have "del_loop handle 0 False w = del_loop handle k True w"
    using k by (intro del_loop_first) auto
  also have "\<dots> = (True, w\<lparr>events := shift_left k (nat (num w)) (events w),
       func := shift_left k (nat (num w)) (func w),
       opaque := shift_left k (nat (num w)) (opaque w),
       revents := shift_left k (nat (num w)) (revents w)\<rparr>)"
    using k(1) len by (intro del_loop_found) auto
  finally show ?thesis
    by (simp add: qemu_del_wait_object_def)
qed

lemma wait_entries_del:
  assumes ok: "wait_objects_ok w"
  shows "wait_entries (qemu_del_wait_object handle f opq w) =
         remove_first (\<lambda>e. fst e = handle) (wait_entries w)"
proof (cases "\<exists>j < nat (num w). events w ! j = handle")
  case False
  then have a: "\<forall>j. int j < num w \<longrightarrow> events w ! j \<noteq> handle" by auto
  have "\<forall>e \<in> set (wait_entries w). fst e \<noteq> handle"
    using False by (auto simp: wait_entries_def wait_entry_at_def)
  then show ?thesis
    by (simp add: del_absent [OF a] remove_first_absent)
next
  case True
  then obtain k where k: "k < nat (num w)" "events w ! k = handle"
    "\<forall>j < k. events w ! j \<noteq> handle"
    by (rule first_index_ex)
  let ?n = "nat (num w)"
  let ?es = "wait_entries w"
  have len: "?n < length (events w)" "?n < length (func w)"
    "?n < length (opaque w)" "?n < length (revents w)"
    using ok by (auto simp: wait_objects_ok_def)
  have kn: "int k < num w" using k(1) by simp
  have del: "qemu_del_wait_object handle f opq w =
     w\<lparr>events := shift_left k ?n (events w),
       func := shift_left k ?n (func w),
       opaque := shift_left k ?n (opaque w),
       revents := shift_left k ?n (revents w),
       num := num w - 1\<rparr>"
    using ok kn k(2,3) by (rule del_present)
  have rf: "remove_first (\<lambda>e. fst e = handle) ?es = take k ?es @ drop (Suc k) ?es"
    using k by (intro remove_first_at) (auto simp: wait_entries_def wait_entry_at_def)
  have "wait_entries (qemu_del_wait_object handle f opq w) = take k ?es @ drop (Suc k) ?es"
  proof (rule nth_equalityI)
    show "length (wait_entries (qemu_del_wait_object handle f opq w)) =
          length (take k ?es @ drop (Suc k) ?es)"
      using k(1) by (simp add: del wait_entries_def) 
  next
    fix i assume "i < length (wait_entries (qemu_del_wait_object handle f opq w))"
    then have i: "i < ?n - 1" by (simp add: del wait_entries_def nat_diff_distrib)
    have i': "Suc i < ?n" "i < ?n" using i by auto
    have l: "wait_entries (qemu_del_wait_object handle f opq w) ! i =
             (if k \<le> i then wait_entry_at w (Suc i) else wait_entry_at w i)"
      using i i' k(1) len
      by (simp add: del wait_entries_def wait_entry_at_def nth_shift_left nat_diff_distrib)
    have r: "(take k ?es @ drop (Suc k) ?es) ! i =
             (if k \<le> i then wait_entry_at w (Suc i) else wait_entry_at w i)"
      using i i' k(1) by (auto simp: wait_entries_def nth_append min_def)
    show "wait_entries (qemu_del_wait_object handle f opq w) ! i =
          (take k ?es @ drop (Suc k) ?es) ! i"
      by (simp only: l r)
  qed
  with rf show ?thesis by simp
qed


lemma mset_remove_first:
  "mset (remove_first P xs) + mset (case find P xs of None \<Rightarrow> [] | Some e \<Rightarrow> [e]) = mset xs"
  by (induction xs) auto

lemma subseq_remove_first: "subseq (remove_first P xs) xs"
  by (induction xs) auto

lemma add_ok: "wait_objects_ok w \<Longrightarrow> wait_objects_ok (snd (qemu_add_wait_object h f opq w))"
  by (auto simp: wait_objects_ok_def qemu_add_wait_object_def)

lemma num_del_le:
  "wait_objects_ok w \<Longrightarrow> length (wait_entries (qemu_del_wait_object h f opq w)) \<le> length (wait_entries w)"
  by (simp add: wait_entries_del) (metis subseq_remove_first list_emb_length)

lemma del_ok:
  assumes ok: "wait_objects_ok w"
  shows "wait_objects_ok (qemu_del_wait_object h f opq w)"
proof (cases "\<exists>j < nat (num w). events w ! j = h")
  case False
  then have a: "\<forall>j. int j < num w \<longrightarrow> events w ! j \<noteq> h" by auto
  show ?thesis using ok by (simp add: del_absent [OF a])
next
  case True
  then obtain k where k: "k < nat (num w)" "events w ! k = h"
    "\<forall>j < k. events w ! j \<noteq> h"
    by (rule first_index_ex)
  have kn: "int k < num w" using k(1) by simp
  have kl: "k \<le> nat (num w)" using k(1) by simp
  show ?thesis
    using ok kn kl
    by (simp add: del_present [OF ok kn k(2,3)] wait_objects_ok_def length_shift_left)
qed

lemma wait_entries_add_accepted:
  assumes ok: "wait_objects_ok w" and lt: "num w < MAXIMUM_WAIT_OBJECTS"
  shows "qemu_add_wait_object h f opq w =
           (0, snd (qemu_add_wait_object h f opq w))"
    and "wait_entries (snd (qemu_add_wait_object h f opq w)) = wait_entries w @ [(h, f, opq, 0)]"
proof -
  show "qemu_add_wait_object h f opq w = (0, snd (qemu_add_wait_object h f opq w))"
    using lt by (simp add: qemu_add_wait_object_def)
  have n: "0 \<le> num w" "nat (num w) < length (events w)" "nat (num w) < length (func w)"
    "nat (num w) < length (opaque w)" "nat (num w) < length (revents w)"
    using ok lt by (auto simp: wait_objects_ok_def)
  have s: "nat (num w + 1) = Suc (nat (num w))" using n(1) by simp
  show "wait_entries (snd (qemu_add_wait_object h f opq w)) = wait_entries w @ [(h, f, opq, 0)]"
    using lt n by (simp add: qemu_add_wait_object_def wait_entries_def wait_entry_at_def s)
qed

lemma add_rejected:
  "\<not> num w < MAXIMUM_WAIT_OBJECTS \<Longrightarrow> qemu_add_wait_object h f opq w = (- 1, w)"
  by (simp add: qemu_add_wait_object_def)

lemma run_wait_ops_ok: "wait_objects_ok w \<Longrightarrow> wait_objects_ok (run_wait_ops ops w)"
  by (induction ops w rule: run_wait_ops.induct) (simp_all add: add_ok del_ok)

lemma wait_objects_init_ok: "wait_objects_ok wait_objects_init"
  by (simp add: wait_objects_ok_def wait_objects_init_def MAXIMUM_WAIT_OBJECTS_def)

lemma wait_entries_init: "wait_entries wait_objects_init = []"
  by (simp add: wait_entries_def wait_objects_init_def)

lemma link_at_end_append: "link_at_end pe pes = pes @ [pe]"
  by (induction pes) auto

lemma del_polling_remove_first:
  "qemu_del_polling_cb f opq pes = remove_first (\<lambda>pe. pe_func pe = f \<and> pe_opaque pe = opq) pes"
  by (induction pes) auto

lemma mset_minus_of_plus:
  fixes A U R :: "'a multiset"
  assumes "A + U = R"
  shows "A = R - U \<and> U \<subseteq># R"
  using assms by auto

lemma length_wait_entries: "0 \<le> num w \<Longrightarrow> int (length (wait_entries w)) = num w"
  by (simp add: wait_entries_def)

lemma wait_ops_refine:
  "wait_objects_ok w \<Longrightarrow>
   wait_entries (run_wait_ops ops w) = spec_wait_ops ops (wait_entries w) \<and>
   wait_returns ops w = spec_wait_returns ops (wait_entries w)"
proof (induction ops w rule: run_wait_ops.induct)
  case (1 w)
  then show ?case by simp
next
  case (2 h f opq ops w)
  have len: "int (length (wait_entries w)) = num w"
    using "2.prems" by (intro length_wait_entries) (simp add: wait_objects_ok_def)
  show ?case
  proof (cases "num w < MAXIMUM_WAIT_OBJECTS")
    case True
    define w' where "w' = snd (qemu_add_wait_object h f opq w)"
    have a: "qemu_add_wait_object h f opq w = (0, w')"
      and b: "wait_entries w' = wait_entries w @ [(h, f, opq, 0)]"
      unfolding w'_def using wait_entries_add_accepted [OF "2.prems" True] by auto
    have "wait_objects_ok w'"
      unfolding w'_def using "2.prems" by (rule add_ok)
    then have "wait_entries (run_wait_ops ops w') = spec_wait_ops ops (wait_entries w') \<and>
               wait_returns ops w' = spec_wait_returns ops (wait_entries w')"
      unfolding w'_def by (rule "2.IH")
    then show ?thesis
      using True by (simp add: a b len)
  next
    case False
    then have r: "qemu_add_wait_object h f opq w = (- 1, w)" by (rule add_rejected)
    have "wait_entries (run_wait_ops ops w) = spec_wait_ops ops (wait_entries w) \<and>
          wait_returns ops w = spec_wait_returns ops (wait_entries w)"
      using "2.IH" "2.prems" by (simp only: r snd_conv)
    then show ?thesis
      using False by (simp add: r len)
  qed
next
  case (3 h f opq ops w)
  define d where "d = qemu_del_wait_object h f opq w"
  have "wait_objects_ok d"
    unfolding d_def using "3.prems" by (rule del_ok)
  then have "wait_entries (run_wait_ops ops d) = spec_wait_ops ops (wait_entries d) \<and>
             wait_returns ops d = spec_wait_returns ops (wait_entries d)"
    unfolding d_def by (rule "3.IH")
  then show ?case
    by (simp add: d_def wait_entries_del [OF "3.prems"])
qed

lemma polling_ops_refine: "run_polling_ops ops pes = spec_polling_ops ops pes"
  by (induction ops pes rule: run_polling_ops.induct)
     (simp_all add: qemu_add_polling_cb_def link_at_end_append del_polling_remove_first)

lemma plus_mset_swap:
  fixes A B C D :: "'a multiset"
  assumes "A + U = E' + R" and "E' + F = E"
  shows "A + (F + U) = E + R"
proof -
  have "A + (F + U) = (A + U) + F" by (simp only: ac_simps)
  also have "\<dots> = (E' + R) + F" by (simp only: assms(1))
  also have "\<dots> = (E' + F) + R" by (simp only: ac_simps)
  finally show ?thesis by (simp only: assms(2))
qed

lemma spec_wait_mset:
  "mset (spec_wait_ops ops es) + mset (wait_matched ops es) =
   mset es + mset (wait_accepted ops es)"
proof (induction ops es rule: spec_wait_ops.induct)
  case (1 es)
  then show ?case by simp
next
  case (2 h f opq ops es)
  then show ?case by simp
next
  case (3 h f opq ops es)
  have "mset (spec_wait_ops ops (remove_first (\<lambda>e. fst e = h) es)) +
        (mset (case find (\<lambda>e. fst e = h) es of None \<Rightarrow> [] | Some e \<Rightarrow> [e]) +
         mset (wait_matched ops (remove_first (\<lambda>e. fst e = h) es))) =
        mset es + mset (wait_accepted ops (remove_first (\<lambda>e. fst e = h) es))"
    using "3.IH" mset_remove_first by (rule plus_mset_swap)
  then show ?case by simp
qed

lemma spec_wait_subseq:
  "subseq (spec_wait_ops ops es) (es @ wait_accepted ops es)"
proof (induction ops es rule: spec_wait_ops.induct)
  case (1 es)
  then show ?case by simp
next
  case (2 h f opq ops es)
  then show ?case
    by (cases "int (length es) < MAXIMUM_WAIT_OBJECTS") simp_all
next
  case (3 h f opq ops es)
  let ?d = "remove_first (\<lambda>e. fst e = h) es"
  have "subseq (?d @ wait_accepted ops ?d) (es @ wait_accepted ops ?d)"
    by (intro list_emb_append_mono subseq_remove_first) auto
  with "3.IH" have "subseq (spec_wait_ops ops ?d) (es @ wait_accepted ops ?d)"
    by (rule subseq_order.trans)
  then show ?case by simp
qed

lemma spec_polling_mset:
  "mset (spec_polling_ops ops pes) + mset (polling_matched ops pes) =
   mset pes + mset (polling_requested ops)"
proof (induction ops pes rule: spec_polling_ops.induct)
  case (1 pes)
  then show ?case by simp
next
  case (2 f opq ops pes)
  then show ?case by simp
next
  case (3 f opq ops pes)
  let ?P = "\<lambda>pe. pe_func pe = f \<and> pe_opaque pe = opq"
  have "mset (spec_polling_ops ops (remove_first ?P pes)) +
        (mset (case find ?P pes of None \<Rightarrow> [] | Some pe \<Rightarrow> [pe]) +
         mset (polling_matched ops (remove_first ?P pes))) =
        mset pes + mset (polling_requested ops)"
    using "3.IH" mset_remove_first by (rule plus_mset_swap)
  then show ?case by simp
qed

lemma spec_polling_subseq:
  "subseq (spec_polling_ops ops pes) (pes @ polling_requested ops)"
proof (induction ops pes rule: spec_polling_ops.induct)
  case (1 pes)
  then show ?case by simp
next
  case (2 f opq ops pes)
  then show ?case by simp
next
  case (3 f opq ops pes)
  let ?d = "remove_first (\<lambda>pe. pe_func pe = f \<and> pe_opaque pe = opq) pes"
  have "subseq (?d @ polling_requested ops) (pes @ polling_requested ops)"
    by (intro list_emb_append_mono subseq_remove_first) auto
  with "3.IH" have "subseq (spec_polling_ops ops ?d) (pes @ polling_requested ops)"
    by (rule subseq_order.trans)
  then show ?case by simp
qed

text \<open>
  Claim C5, as amended. Starting from the empty polling list and the zero-initialised
  wait-object table, after any sequence of additions and removals each registry
  holds what its specification holds: an addition to the table is accepted, with
  return value 0, exactly while fewer than \<^verbatim>\<open>MAXIMUM_WAIT_OBJECTS\<close> entries are
  registered, and is refused with \<open>-1\<close> otherwise. So the entries of each registry
  are, as a multiset, the entries of the accepted additions (for the polling list:
  of all additions) minus the entries that the removals matched, and they stand in
  the order in which they were registered.
\<close>

theorem registries_membership_and_order:
  "run_polling_ops pops [] = spec_polling_ops pops [] \<and>
   mset (run_polling_ops pops []) =
     mset (polling_requested pops) - mset (polling_matched pops []) \<and>
   mset (polling_matched pops []) \<subseteq># mset (polling_requested pops) \<and>
   subseq (run_polling_ops pops []) (polling_requested pops) \<and>
   wait_entries (run_wait_ops wops wait_objects_init) = spec_wait_ops wops [] \<and>
   wait_returns wops wait_objects_init = spec_wait_returns wops [] \<and>
   mset (wait_entries (run_wait_ops wops wait_objects_init)) =
     mset (wait_accepted wops []) - mset (wait_matched wops []) \<and>
   mset (wait_matched wops []) \<subseteq># mset (wait_accepted wops []) \<and>
   subseq (wait_entries (run_wait_ops wops wait_objects_init)) (wait_accepted wops [])"
proof -
  have pr: "run_polling_ops pops [] = spec_polling_ops pops []"
    by (rule polling_ops_refine)
  have wr: "wait_entries (run_wait_ops wops wait_objects_init) = spec_wait_ops wops []"
    and ret: "wait_returns wops wait_objects_init = spec_wait_returns wops []"
    using wait_ops_refine [OF wait_objects_init_ok, of wops] by (simp_all add: wait_entries_init)
  have p: "mset (run_polling_ops pops []) + mset (polling_matched pops []) =
           mset (polling_requested pops)"
    using spec_polling_mset [of pops "[]"] by (simp add: pr)
  have w: "mset (wait_entries (run_wait_ops wops wait_objects_init)) +
           mset (wait_matched wops []) = mset (wait_accepted wops [])"
    using spec_wait_mset [of wops "[]"] by (simp add: wr)
  have ps: "subseq (run_polling_ops pops []) (polling_requested pops)"
    using spec_polling_subseq [of pops "[]"] by (simp add: pr)
  have ws: "subseq (wait_entries (run_wait_ops wops wait_objects_init)) (wait_accepted wops [])"
    using spec_wait_subseq [of wops "[]"] by (simp add: wr)
  show ?thesis
    using mset_minus_of_plus [OF p] mset_minus_of_plus [OF w] ps ws pr wr ret by simp
qed

lemma wait_matched_adds:
  "wait_matched (replicate n (Add_wait_object h f opq)) es = []"
  by (induction n arbitrary: es) auto

lemma wait_requested_adds:
  "wait_requested (replicate n (Add_wait_object h f opq)) = replicate n (h, f, opq, 0)"
  by (induction n) auto

lemma length_wait_entries_ok: "wait_objects_ok w \<Longrightarrow> length (wait_entries w) \<le> 64"
  by (auto simp: wait_entries_def wait_objects_ok_def MAXIMUM_WAIT_OBJECTS_def)

text \<open>
  Claim C5 as stated fails once the table is full: of 65 additions only 64 are in
  the table afterwards.
\<close>

theorem requested_adds_counterexample:
  "mset (wait_entries (run_wait_ops (replicate 65 (Add_wait_object 1 2 3)) wait_objects_init)) \<noteq>
   mset (wait_requested (replicate 65 (Add_wait_object 1 2 3))) -
   mset (wait_matched (replicate 65 (Add_wait_object 1 2 3)) [])"
proof
  assume a: "mset (wait_entries (run_wait_ops (replicate 65 (Add_wait_object 1 2 3)) wait_objects_init)) =
   mset (wait_requested (replicate 65 (Add_wait_object 1 2 3))) -
   mset (wait_matched (replicate 65 (Add_wait_object 1 2 3)) [])"
  have "length (wait_entries (run_wait_ops (replicate 65 (Add_wait_object 1 2 3)) wait_objects_init)) \<le> 64"
    by (intro length_wait_entries_ok run_wait_ops_ok wait_objects_init_ok)
  moreover have "size (mset (wait_entries (run_wait_ops (replicate 65 (Add_wait_object 1 2 3)) wait_objects_init))) = 65"
    unfolding a by (simp add: wait_matched_adds wait_requested_adds)
  ultimately show False by simp
qed

theorem registries_membership_and_order_witness:
  "run_polling_ops [Add_polling_cb 1 2, Add_polling_cb 3 4, Add_polling_cb 1 2,
         Del_polling_cb 1 2, Del_polling_cb 1 9] [] =
     [\<lparr>pe_func = 3, pe_opaque = 4\<rparr>, \<lparr>pe_func = 1, pe_opaque = 2\<rparr>] \<and>
   polling_matched [Add_polling_cb 1 2, Add_polling_cb 3 4, Add_polling_cb 1 2,
         Del_polling_cb 1 2, Del_polling_cb 1 9] [] = [\<lparr>pe_func = 1, pe_opaque = 2\<rparr>] \<and>
   wait_entries (run_wait_ops [Add_wait_object 5 10 11, Add_wait_object 6 20 21,
         Add_wait_object 5 30 31, Del_wait_object 5 0 0, Del_wait_object 9 0 0]
         wait_objects_init) = [(6, 20, 21, 0), (5, 30, 31, 0)] \<and>
   wait_returns [Add_wait_object 5 10 11, Add_wait_object 6 20 21,
         Add_wait_object 5 30 31, Del_wait_object 5 0 0, Del_wait_object 9 0 0]
         wait_objects_init = [0, 0, 0] \<and>
   wait_accepted [Add_wait_object 5 10 11, Add_wait_object 6 20 21,
         Add_wait_object 5 30 31, Del_wait_object 5 0 0, Del_wait_object 9 0 0] [] =
     [(5, 10, 11, 0), (6, 20, 21, 0), (5, 30, 31, 0)] \<and>
   wait_matched [Add_wait_object 5 10 11, Add_wait_object 6 20 21,
         Add_wait_object 5 30 31, Del_wait_object 5 0 0, Del_wait_object 9 0 0] [] =
     [(5, 10, 11, 0)]"
proof -
  note t = registries_membership_and_order
    [of "[Add_polling_cb 1 2, Add_polling_cb 3 4, Add_polling_cb 1 2,
         Del_polling_cb 1 2, Del_polling_cb 1 9]"
        "[Add_wait_object 5 10 11, Add_wait_object 6 20 21,
         Add_wait_object 5 30 31, Del_wait_object 5 0 0, Del_wait_object 9 0 0]"]
  have p: "run_polling_ops [Add_polling_cb 1 2, Add_polling_cb 3 4, Add_polling_cb 1 2,
         Del_polling_cb 1 2, Del_polling_cb 1 9] [] =
     [\<lparr>pe_func = 3, pe_opaque = 4\<rparr>, \<lparr>pe_func = 1, pe_opaque = 2\<rparr>]"
    unfolding t [THEN conjunct1] by simp
  have w: "wait_entries (run_wait_ops [Add_wait_object 5 10 11, Add_wait_object 6 20 21,
         Add_wait_object 5 30 31, Del_wait_object 5 0 0, Del_wait_object 9 0 0]
         wait_objects_init) = [(6, 20, 21, 0), (5, 30, 31, 0)]"
    unfolding t [THEN conjunct2, THEN conjunct2, THEN conjunct2, THEN conjunct2, THEN conjunct1]
    by (simp add: MAXIMUM_WAIT_OBJECTS_def)
  have r: "wait_returns [Add_wait_object 5 10 11, Add_wait_object 6 20 21,
         Add_wait_object 5 30 31, Del_wait_object 5 0 0, Del_wait_object 9 0 0]
         wait_objects_init = [0, 0, 0]"
    unfolding t [THEN conjunct2, THEN conjunct2, THEN conjunct2, THEN conjunct2, THEN conjunct2,
        THEN conjunct1]
    by (simp add: MAXIMUM_WAIT_OBJECTS_def)
  show ?thesis
    unfolding p w r by (simp add: MAXIMUM_WAIT_OBJECTS_def)
qed

lemma example_table_ok: "wait_objects_ok example_table"
  by (simp add: wait_objects_ok_def example_table_def MAXIMUM_WAIT_OBJECTS_def)

lemma example_table_entries: "wait_entries example_table = [(5, 10, 11, 0), (5, 20, 21, 0)]"
  by (simp add: wait_entries_def wait_entry_at_def example_table_def upt_rec)

text \<open>
  Claim C2. When the count has reached \<^verbatim>\<open>MAXIMUM_WAIT_OBJECTS\<close>,
  \<^verbatim>\<open>qemu_add_wait_object\<close> returns \<open>-1\<close> and the table after the call is the table
  before it: the count and all four arrays.
\<close>

theorem add_wait_object_at_capacity:
  "num w \<ge> MAXIMUM_WAIT_OBJECTS \<Longrightarrow> qemu_add_wait_object h f opq w = (- 1, w)"
  by (simp add: qemu_add_wait_object_def)

theorem add_wait_object_at_capacity_witness:
  "num (example_table\<lparr>num := 64\<rparr>) \<ge> MAXIMUM_WAIT_OBJECTS \<and>
   qemu_add_wait_object 7 8 9 (example_table\<lparr>num := 64\<rparr>) = (- 1, example_table\<lparr>num := 64\<rparr>)"
  using add_wait_object_at_capacity [of "example_table\<lparr>num := 64\<rparr>" 7 8 9]
  by (simp add: MAXIMUM_WAIT_OBJECTS_def)

text \<open>
  Claim C8. Removing a polling callback that no entry matches (on function and opaque
  pointer), or a wait object whose handle is in none of the first \<open>num\<close> slots,
  leaves the list, respectively the whole table, as it was.
\<close>

theorem remove_absent_is_noop:
  "((\<forall>pe \<in> set pes. pe_func pe \<noteq> f \<or> pe_opaque pe \<noteq> opq) \<longrightarrow>
      qemu_del_polling_cb f opq pes = pes) \<and>
   ((\<forall>j. int j < num w \<longrightarrow> events w ! j \<noteq> h) \<longrightarrow>
      qemu_del_wait_object h g gopq w = w)"
proof (intro conjI impI)
  assume "\<forall>pe \<in> set pes. pe_func pe \<noteq> f \<or> pe_opaque pe \<noteq> opq"
  then show "qemu_del_polling_cb f opq pes = pes"
    by (induction pes) auto
next
  assume "\<forall>j. int j < num w \<longrightarrow> events w ! j \<noteq> h"
  then show "qemu_del_wait_object h g gopq w = w"
    by (rule del_absent)
qed

theorem remove_absent_is_noop_witness:
  "qemu_del_polling_cb 1 9 [\<lparr>pe_func = 1, pe_opaque = 2\<rparr>, \<lparr>pe_func = 3, pe_opaque = 9\<rparr>] =
     [\<lparr>pe_func = 1, pe_opaque = 2\<rparr>, \<lparr>pe_func = 3, pe_opaque = 9\<rparr>] \<and>
   qemu_del_wait_object 7 10 11 example_table = example_table"
proof -
  have "\<forall>j. int j < num example_table \<longrightarrow> events example_table ! j \<noteq> 7"
    by (auto simp: example_table_def nth_Cons split: nat.splits)
  then show ?thesis
    using remove_absent_is_noop
      [where pes = "[\<lparr>pe_func = 1, pe_opaque = 2\<rparr>, \<lparr>pe_func = 3, pe_opaque = 9\<rparr>]"
         and f = 1 and opq = 9 and w = example_table and h = 7 and g = 10 and gopq = 11]
    by simp
qed

text \<open>
  Claim C10. \<^verbatim>\<open>qemu_del_wait_object\<close> gives the same table whatever callback and
  opaque pointer it is called with, and on a well-formed table the entries after the
  call are the entries before it without the first one whose handle is the argument.
\<close>

theorem del_wait_object_matches_handle_only:
  "qemu_del_wait_object h f opq w = qemu_del_wait_object h f' opq' w \<and>
   (wait_objects_ok w \<longrightarrow>
      wait_entries (qemu_del_wait_object h f opq w) =
        remove_first (\<lambda>e. fst e = h) (wait_entries w))"
  by (simp add: wait_entries_del) (simp add: qemu_del_wait_object_def)

theorem del_wait_object_matches_handle_only_witness:
  "wait_objects_ok example_table \<and> wait_entries example_table = [(5, 10, 11, 0), (5, 20, 21, 0)] \<and>
   qemu_del_wait_object 5 20 21 example_table = qemu_del_wait_object 5 0 0 example_table \<and>
   wait_entries (qemu_del_wait_object 5 20 21 example_table) = [(5, 20, 21, 0)]"
  using del_wait_object_matches_handle_only
      [where h = 5 and f = 20 and opq = 21 and w = example_table and f' = 0 and opq' = 0]
    example_table_ok example_table_entries
  by auto

subsection \<open>The signal descriptor\<close>

lemma sigfd_handler_returns:
  "sigfd_handler sizeof_info fl script = Some (evs, out) \<Longrightarrow> out = Returns ()"
proof (induction sizeof_info fl script arbitrary: evs out rule: sigfd_handler.induct)
  case (1 sizeof_info fl script)
  show ?case
    using "1.prems" "1.IH"
    by (subst (asm) sigfd_handler.simps)
       (auto split: option.splits if_splits list.splits os_reply.splits prod.splits)
qed

lemma sigfd_handler_short_read:
  assumes "len \<noteq> sizeof_info" "\<not> (len = - 1 \<and> (e = EINTR \<or> e = EAGAIN))"
  shows "sigfd_handler sizeof_info fl (Read_reply len e info # rest) =
         Some ([Printf_read len], Returns ())"
  using assms by (subst sigfd_handler.simps) auto

lemma sigfd_handler_sigaction_fails:
  assumes "0 < sizeof_info" "result \<noteq> 0"
  shows "sigfd_handler sizeof_info fl
           (Read_reply sizeof_info e info # Sigaction_reply result action # rest) =
         Some ([Printf_sigaction result], Returns ())"
  using assms by (subst sigfd_handler.simps) auto

lemma sigfd_handler_dispatched:
  assumes "0 < sizeof_info"
  shows "sigfd_handler sizeof_info fl
           (Read_reply sizeof_info e info # Sigaction_reply 0 action # rest) =
         map_option (\<lambda>(evs, out). (dispatch_signal fl action (ssi_signo info) @ evs, out))
           (sigfd_handler sizeof_info fl rest)"
  using assms
  by (subst sigfd_handler.simps) (auto split: option.splits)

text \<open>
  Claim C1, as amended. A read that is neither a whole record nor \<^verbatim>\<open>EAGAIN\<close> nor an
  interrupted call makes the handler print a diagnostic and return to its caller;
  so does a \<^verbatim>\<open>sigaction\<close> that fails. In both cases nothing is dispatched for
  that record and nothing more is read. A record whose handler was found is
  dispatched and the loop goes on with the next read. However the script goes, the
  handler never stops the process.
\<close>

theorem sigfd_errors_print_and_return:
  "(len \<noteq> sizeof_info \<and> \<not> (len = - 1 \<and> (e = EINTR \<or> e = EAGAIN)) \<longrightarrow>
      sigfd_handler sizeof_info fl (Read_reply len e info # rest) =
        Some ([Printf_read len], Returns ())) \<and>
   (0 < sizeof_info \<and> result \<noteq> 0 \<longrightarrow>
      sigfd_handler sizeof_info fl
        (Read_reply sizeof_info e info # Sigaction_reply result action # rest) =
        Some ([Printf_sigaction result], Returns ())) \<and>
   (0 < sizeof_info \<longrightarrow>
      sigfd_handler sizeof_info fl
        (Read_reply sizeof_info e info # Sigaction_reply 0 action # script) =
        map_option (\<lambda>(evs, out). (dispatch_signal fl action (ssi_signo info) @ evs, out))
          (sigfd_handler sizeof_info fl script)) \<and>
   (\<forall>evs out. sigfd_handler sizeof_info fl script = Some (evs, out) \<longrightarrow> out = Returns ())"
proof (intro conjI impI allI)
  assume "len \<noteq> sizeof_info \<and> \<not> (len = - 1 \<and> (e = EINTR \<or> e = EAGAIN))"
  then show "sigfd_handler sizeof_info fl (Read_reply len e info # rest) =
        Some ([Printf_read len], Returns ())"
    by (intro sigfd_handler_short_read) simp_all
next
  assume "0 < sizeof_info \<and> result \<noteq> 0"
  then show "sigfd_handler sizeof_info fl
        (Read_reply sizeof_info e info # Sigaction_reply result action # rest) =
        Some ([Printf_sigaction result], Returns ())"
    by (intro sigfd_handler_sigaction_fails) simp_all
next
  assume "0 < sizeof_info"
  then show "sigfd_handler sizeof_info fl
        (Read_reply sizeof_info e info # Sigaction_reply 0 action # script) =
        map_option (\<lambda>(evs, out). (dispatch_signal fl action (ssi_signo info) @ evs, out))
          (sigfd_handler sizeof_info fl script)"
    by (rule sigfd_handler_dispatched)
next
  fix evs out
  assume "sigfd_handler sizeof_info fl script = Some (evs, out)"
  then show "out = Returns ()"
    by (rule sigfd_handler_returns)
qed

text \<open>
  Claim C1 as stated fails: on a read of 5 bytes where 128 are expected, and on a
  \<^verbatim>\<open>sigaction\<close> that returns \<open>-1\<close>, the handler prints and returns.
\<close>

theorem sigfd_short_read_counterexample:
  "sigfd_handler 128 4 [Read_reply 5 EOTHER \<lparr>ssi_signo = 14\<rparr>] =
     Some ([Printf_read 5], Returns ()) \<and>
   sigfd_handler 128 4
     [Read_reply 128 EOTHER \<lparr>ssi_signo = 14\<rparr>,
      Sigaction_reply (- 1) \<lparr>sa_flags = 0, sa_sigaction = 0, sa_handler = 77\<rparr>] =
     Some ([Printf_sigaction (- 1)], Returns ())"
  by code_simp

theorem sigfd_errors_print_and_return_witness:
  "sigfd_handler 128 4
     [Read_reply 128 EOTHER \<lparr>ssi_signo = 14\<rparr>,
      Sigaction_reply 0 \<lparr>sa_flags = 0, sa_sigaction = 0, sa_handler = 77\<rparr>,
      Read_reply 5 EOTHER \<lparr>ssi_signo = 10\<rparr>] =
     Some ([Call_sa_handler 77 14, Printf_read 5], Returns ()) \<and>
   sigfd_handler 128 4
     [Read_reply 128 EOTHER \<lparr>ssi_signo = 14\<rparr>,
      Sigaction_reply 3 \<lparr>sa_flags = 0, sa_sigaction = 0, sa_handler = 77\<rparr>] =
     Some ([Printf_sigaction 3], Returns ())"
proof -
  note t = sigfd_errors_print_and_return
    [where sizeof_info = 128 and fl = 4 and len = 5 and e = EOTHER and rest = "[]" and result = 3
       and action = "\<lparr>sa_flags = 0, sa_sigaction = 0, sa_handler = 77\<rparr>"
       and script = "[Read_reply 5 EOTHER \<lparr>ssi_signo = 10\<rparr>]"]
  have a: "sigfd_handler 128 4 [Read_reply 5 EOTHER \<lparr>ssi_signo = 10\<rparr>] =
        Some ([Printf_read 5], Returns ())"
    using t [where info = "\<lparr>ssi_signo = 10\<rparr>", THEN conjunct1] by simp
  have b: "sigfd_handler 128 4
     [Read_reply 128 EOTHER \<lparr>ssi_signo = 14\<rparr>,
      Sigaction_reply 3 \<lparr>sa_flags = 0, sa_sigaction = 0, sa_handler = 77\<rparr>] =
     Some ([Printf_sigaction 3], Returns ())"
    using t [where info = "\<lparr>ssi_signo = 14\<rparr>", THEN conjunct2, THEN conjunct1] by simp
  have c: "sigfd_handler 128 4
     [Read_reply 128 EOTHER \<lparr>ssi_signo = 14\<rparr>,
      Sigaction_reply 0 \<lparr>sa_flags = 0, sa_sigaction = 0, sa_handler = 77\<rparr>,
      Read_reply 5 EOTHER \<lparr>ssi_signo = 10\<rparr>] =
     map_option (\<lambda>(evs, out). (dispatch_signal 4
         \<lparr>sa_flags = 0, sa_sigaction = 0, sa_handler = 77\<rparr> 14 @ evs, out))
       (sigfd_handler 128 4 [Read_reply 5 EOTHER \<lparr>ssi_signo = 10\<rparr>])"
    using t [where info = "\<lparr>ssi_signo = 14\<rparr>", THEN conjunct2, THEN conjunct2, THEN conjunct1]
    by simp
  show ?thesis
    by (simp add: a b c dispatch_signal_def)
qed

subsection \<open>The log of calls of the wait functions\<close>

lemma trace_emit: "trace (emit e s) = trace s @ [e]"
  by (simp add: emit_def)

lemma trace_unlock: "trace (unlock_iothread env s) = trace s @ [Qemu_mutex_unlock_iothread]"
  by (simp add: unlock_iothread_def emit_def)

lemma trace_lock: "trace (lock_iothread env s) = trace s @ [Qemu_mutex_lock_iothread]"
  by (simp add: lock_iothread_def emit_def)

lemma trace_check_and_dispatch:
  "trace (check_and_dispatch env s) =
   trace s @ dispatch_events
     (fst (g_main_context_check env (max_priority s) (poll_fds s) (n_poll_fds s) (world s)))"
  by (simp add: check_and_dispatch_def emit_def dispatch_events_def Let_def split: prod.splits)

lemma trace_glib_select_poll:
  "\<exists>work. trace (glib_select_poll env sets err s) = trace s @ dispatch_events work"
  by (auto simp: glib_select_poll_def Let_def trace_check_and_dispatch)

lemma trace_polling_loop:
  "trace (snd (polling_loop env pes ret s)) =
   trace s @ map (\<lambda>pe. Polling_func (pe_func pe) (pe_opaque pe)) pes"
  by (induction pes arbitrary: ret s) (auto simp: emit_def split: prod.splits)

lemma trace_fold_wait:
  "trace (fold (\<lambda>i s. if revents w ! i \<noteq> 0 \<and> func w ! i \<noteq> 0
                  then emit (Wait_object_func (func w ! i) (opaque w ! i))
                         (s\<lparr>world := wait_object_func env (func w ! i) (opaque w ! i) (world s)\<rparr>)
                  else s) is s) = trace s @ wait_callback_events w is"
  by (induction "is" arbitrary: s) (auto simp: emit_def wait_callback_events_def)

lemma trace_wait_callbacks:
  "trace (wait_callbacks env w s) = trace s @ wait_callback_events w [0..<nat (num w)]"
  unfolding wait_callbacks_def by (rule trace_fold_wait)

lemma glib_select_fill_ok:
  assumes "g_main_context_prepare env (world s) = (prio, x1)"
      and "g_main_context_query env prio (poll_fds s) x1 = ((n, fw, fds), x2)"
      and "0 \<le> n" "n \<le> POLL_FDS_SIZE"
  shows "glib_select_fill env sets timeout s =
    (Returns (fold (fill_fd env) (take (nat n) fds) sets,
              if 0 \<le> sint fw \<and> fw < timeout then fw else timeout),
     s\<lparr>max_priority := prio, n_poll_fds := n, poll_fds := fds, world := x2,
       trace := trace s @ [G_main_context_prepare, G_main_context_query]\<rparr>)"
  using assms by (simp add: glib_select_fill_def Let_def emit_def)

lemma glib_select_fill_abort:
  assumes "g_main_context_prepare env (world s) = (prio, x1)"
      and "g_main_context_query env prio (poll_fds s) x1 = ((n, fw, fds), x2)"
      and "\<not> (0 \<le> n \<and> n \<le> POLL_FDS_SIZE)"
  shows "fst (glib_select_fill env sets timeout s) = Aborts"
  using assms by (simp add: glib_select_fill_def Let_def emit_def)

lemma posix_wait_trace:
  assumes prep: "g_main_context_prepare env (world s) = (prio, x1)"
      and q: "g_main_context_query env prio (poll_fds s) x1 = ((n, fw, fds), x2)"
      and n: "0 \<le> n" "n \<le> POLL_FDS_SIZE"
      and eff: "eff = (if 0 \<le> sint fw \<and> fw < timeout then fw else timeout)"
  shows "\<exists>ret s' work. os_host_main_loop_wait_posix env timeout s = (Returns ret, s') \<and>
           trace s' = trace s @ [G_main_context_prepare, G_main_context_query]
             @ (if eff \<noteq> 0
                then [Qemu_mutex_unlock_iothread, Select (timeval_arg eff), Qemu_mutex_lock_iothread]
                else [Select (timeval_arg eff)])
             @ dispatch_events work"
proof -
  define sets where "sets = fold (fill_fd env) (take (nat n) fds) (nfds s, rfds s, wfds s, xfds s)"
  obtain m r w x where sets: "sets = (m, r, w, x)"
    by (cases sets) auto
  define s1 where "s1 = s\<lparr>max_priority := prio, n_poll_fds := n, poll_fds := fds, world := x2,
       trace := trace s @ [G_main_context_prepare, G_main_context_query]\<rparr>"
  have fill: "glib_select_fill env (nfds s, rfds s, wfds s, xfds s) timeout s =
      (Returns ((m, r, w, x), eff), s1)"
    unfolding s1_def eff sets [symmetric] sets_def
    using prep q n by (rule glib_select_fill_ok)
  define s2 where "s2 = s1\<lparr>nfds := m, rfds := r, wfds := w, xfds := x\<rparr>"
  define s3 where "s3 = (if eff > 0 then unlock_iothread env s2 else s2)"
  obtain ret r' w' x' x4 where
    sel: "select env (nfds s3 + 1) (rfds s3, wfds s3, xfds s3) (timeval_arg eff) (world s3) =
           ((ret, r', w', x'), x4)"
    by (metis prod_cases3 prod.collapse)
  define s4 where "s4 = emit (Select (timeval_arg eff))
                          (s3\<lparr>rfds := r', wfds := w', xfds := x', world := x4\<rparr>)"
  define s5 where "s5 = (if eff > 0 then lock_iothread env s4 else s4)"
  obtain work where
    work: "trace (glib_select_poll env (rfds s5, wfds s5, xfds s5) (ret < 0) s5) =
           trace s5 @ dispatch_events work"
    using trace_glib_select_poll by blast
  have res: "os_host_main_loop_wait_posix env timeout s =
      (Returns ret, glib_select_poll env (rfds s5, wfds s5, xfds s5) (ret < 0) s5)"
    unfolding os_host_main_loop_wait_posix_def fill Let_def prod.case outcome.case
      s2_def [symmetric]
    unfolding s3_def [symmetric] sel prod.case
    unfolding s4_def [symmetric]
    unfolding s5_def [symmetric]
    by (rule refl)
  have t5: "trace s5 = trace s @ [G_main_context_prepare, G_main_context_query]
             @ (if eff \<noteq> 0
                then [Qemu_mutex_unlock_iothread, Select (timeval_arg eff), Qemu_mutex_lock_iothread]
                else [Select (timeval_arg eff)])"
    by (simp add: s5_def s4_def s3_def s2_def s1_def trace_lock trace_unlock trace_emit word_gt_0)
  show ?thesis
    using res work t5 by auto
qed

lemma polling_loop_frame:
  "\<exists>x. snd (polling_loop env pes ret s) =
     s\<lparr>world := x, trace := trace s @ map (\<lambda>pe. Polling_func (pe_func pe) (pe_opaque pe)) pes\<rparr>"
proof (induction pes arbitrary: ret s)
  case Nil
  have "s = s\<lparr>world := world s, trace := trace s @ []\<rparr>" by simp
  then show ?case by (auto intro: exI [of _ "world s"])
next
  case (Cons pe pes)
  obtain r x1 where c: "polling_func env (pe_func pe) (pe_opaque pe) (world s) = (r, x1)"
    by (cases "polling_func env (pe_func pe) (pe_opaque pe) (world s)") auto
  define s' where "s' = emit (Polling_func (pe_func pe) (pe_opaque pe)) (s\<lparr>world := x1\<rparr>)"
  from Cons.IH [of "ret OR r" s'] obtain x where
    x: "snd (polling_loop env pes (ret OR r) s') =
       s'\<lparr>world := x, trace := trace s' @ map (\<lambda>pe. Polling_func (pe_func pe) (pe_opaque pe)) pes\<rparr>"
    by blast
  have "snd (polling_loop env (pe # pes) ret s) =
     s\<lparr>world := x, trace := trace s @ map (\<lambda>pe. Polling_func (pe_func pe) (pe_opaque pe)) (pe # pes)\<rparr>"
    using x by (simp add: c s'_def emit_def)
  then show ?case by blast
qed

lemma wait_callback_events_shape:
  "\<forall>e \<in> set (wait_callback_events w is). \<exists>f p. e = Wait_object_func f p"
  by (auto simp: wait_callback_events_def)

lemma win32_wait_trace:
  assumes pl: "polling_loop env (first_polling_entry s) 0 s = (0, s0)"
      and prep: "g_main_context_prepare env (world s0) = (prio, x1)"
      and q: "g_main_context_query env prio (poll_fds s) x1 = ((n, fw, fds), x2)"
      and n: "0 \<le> n" "n \<le> POLL_FDS_SIZE" "n + num (wait_objects s) \<le> POLL_FDS_SIZE"
      and eff: "eff = (if sint fw < 0 \<or> timeout < fw then timeout else fw)"
  shows "\<exists>ret s' cbs work sel.
      os_host_main_loop_wait_win32 env timeout s = (Returns ret, s') \<and>
      trace s' = trace s
        @ map (\<lambda>pe. Polling_func (pe_func pe) (pe_opaque pe)) (first_polling_entry s)
        @ [G_main_context_prepare, G_main_context_query, Qemu_mutex_unlock_iothread,
           G_poll (n + num (wait_objects s)) eff, Qemu_mutex_lock_iothread]
        @ cbs @ dispatch_events work @ sel \<and>
      (\<forall>e \<in> set cbs. \<exists>f p. e = Wait_object_func f p) \<and>
      (sel = [] \<or> sel = [Select (Some \<lparr>tv_sec = 0, tv_usec = 0\<rparr>)])"
proof -
  let ?P = "map (\<lambda>pe. Polling_func (pe_func pe) (pe_opaque pe)) (first_polling_entry s)"
  obtain x0 where s0: "s0 = s\<lparr>world := x0, trace := trace s @ ?P\<rparr>"
    using polling_loop_frame [of env "first_polling_entry s" 0 s] pl by auto
  define s1 where "s1 = emit G_main_context_prepare (s0\<lparr>max_priority := prio, world := x1\<rparr>)"
  have q1: "g_main_context_query env (max_priority s1) (poll_fds s1) (world s1) =
            ((n, fw, fds), x2)"
    using q by (simp add: s1_def s0 emit_def)
  define s2 where "s2 = emit G_main_context_query
                             (s1\<lparr>n_poll_fds := n, poll_fds := fds, world := x2\<rparr>)"
  have w2: "wait_objects s2 = wait_objects s" "n_poll_fds s2 = n"
    by (simp_all add: s2_def s1_def s0 emit_def)
  have ok: "0 \<le> n \<and> n \<le> POLL_FDS_SIZE" "\<not> n + num (wait_objects s2) > POLL_FDS_SIZE"
    using n w2 by auto
  define s3 where "s3 = s2\<lparr>poll_fds := add_wait_fds env (wait_objects s2) (nat n) (poll_fds s2)\<rparr>"
  define s4 where "s4 = unlock_iothread env s3"
  obtain gret fds' x5 where
    gp: "g_poll env (poll_fds s4) (n_poll_fds s4 + num (wait_objects s2)) eff (world s4) =
           ((gret, fds'), x5)"
    by (metis prod.collapse)
  define s5 where "s5 = emit (G_poll (n_poll_fds s4 + num (wait_objects s2)) eff)
                                    (s4\<lparr>poll_fds := fds', world := x5\<rparr>)"
  define s6 where "s6 = lock_iothread env s5"
  define s7 where "s7 = (if gret > 0
                                   then
                                     let w' = copy_revents (wait_objects s6)
                                                (nat (n_poll_fds s6)) (poll_fds s6)
                                     in wait_callbacks env w' (s6\<lparr>wait_objects := w'\<rparr>)
                                   else s6)"
  define s8 where "s8 = check_and_dispatch env s7"
  define cbs where "cbs = (if gret > 0
     then wait_callback_events (copy_revents (wait_objects s6) (nat (n_poll_fds s6)) (poll_fds s6))
            [0..<nat (num (copy_revents (wait_objects s6) (nat (n_poll_fds s6)) (poll_fds s6)))]
     else [])"
  have n4: "n_poll_fds s4 = n"
    by (simp add: s4_def s3_def w2 unlock_iothread_def emit_def)
  have s5': "s5 = emit (G_poll (n + num (wait_objects s)) eff)
                                    (s4\<lparr>poll_fds := fds', world := x5\<rparr>)"
    by (simp only: s5_def n4 w2)
  have t6: "trace s6 = trace s @ ?P @ [G_main_context_prepare, G_main_context_query,
      Qemu_mutex_unlock_iothread, G_poll (n + num (wait_objects s)) eff, Qemu_mutex_lock_iothread]"
    by (simp add: s6_def s5' s4_def s3_def s2_def s1_def s0 trace_lock trace_unlock trace_emit)
  have t7: "trace s7 = trace s6 @ cbs"
    by (simp add: s7_def cbs_def Let_def trace_wait_callbacks)
  have cb: "\<forall>e \<in> set cbs. \<exists>f p. e = Wait_object_func f p"
    using wait_callback_events_shape by (auto simp: cbs_def)
  define work where "work = fst (g_main_context_check env (max_priority s7) (poll_fds s7)
                                   (n_poll_fds s7) (world s7))"
  have t8: "trace s8 = trace s7 @ dispatch_events work"
    by (simp add: s8_def work_def trace_check_and_dispatch)
  have body: "os_host_main_loop_wait_win32 env timeout s =
      (if nfds s8 \<ge> 0 then
                           (case select env (nfds s8 + 1) (rfds s8, wfds s8, xfds s8)
                                   (Some \<lparr>tv_sec = 0, tv_usec = 0\<rparr>) (world s8) of
                              ((select_ret, r', w', x'), x9) \<Rightarrow>
                                let s9 = emit (Select (Some \<lparr>tv_sec = 0, tv_usec = 0\<rparr>))
                                           (s8\<lparr>rfds := r', wfds := w', xfds := x', world := x9\<rparr>);
                                    timeout_after = (if select_ret \<noteq> 0 then 0 else timeout)
                                in (Returns (if select_ret \<noteq> 0 \<or> gret \<noteq> 0 then 1 else 0),
                                    s9))
                         else
                           (Returns (if indeterminate env \<noteq> 0 \<or> gret \<noteq> 0 then 1 else 0),
                            s8))"
    unfolding os_host_main_loop_wait_win32_def pl prod.case
    unfolding prep prod.case Let_def
    unfolding s1_def [symmetric] q1 prod.case
    unfolding s2_def [symmetric]
    unfolding eff [symmetric] s3_def [symmetric]
    unfolding s4_def [symmetric] gp prod.case
    unfolding s5_def [symmetric]
    unfolding s6_def [symmetric]
    unfolding s7_def [unfolded Let_def, symmetric]
    unfolding s8_def [symmetric]
    using ok by simp
  show ?thesis
  proof (cases "nfds s8 \<ge> 0")
    case False
    then have "os_host_main_loop_wait_win32 env timeout s =
       (Returns (if indeterminate env \<noteq> 0 \<or> gret \<noteq> 0 then 1 else 0), s8)"
      by (simp add: body)
    moreover have "trace s8 = trace s @ ?P @ [G_main_context_prepare, G_main_context_query,
      Qemu_mutex_unlock_iothread, G_poll (n + num (wait_objects s)) eff, Qemu_mutex_lock_iothread]
      @ cbs @ dispatch_events work @ []"
      by (simp add: t8 t7 t6)
    ultimately show ?thesis using cb by blast
  next
    case True
    obtain sret r' w' x' x9 where
      sel: "select env (nfds s8 + 1) (rfds s8, wfds s8, xfds s8)
              (Some \<lparr>tv_sec = 0, tv_usec = 0\<rparr>) (world s8) = ((sret, r', w', x'), x9)"
      by (metis prod_cases3 prod.collapse)
    define s9 where "s9 = emit (Select (Some \<lparr>tv_sec = 0, tv_usec = 0\<rparr>))
                                           (s8\<lparr>rfds := r', wfds := w', xfds := x', world := x9\<rparr>)"
    have "os_host_main_loop_wait_win32 env timeout s =
       (Returns (if sret \<noteq> 0 \<or> gret \<noteq> 0 then 1 else 0), s9)"
      using True by (simp add: body sel s9_def Let_def)
    moreover have "trace s9 = trace s @ ?P @ [G_main_context_prepare, G_main_context_query,
      Qemu_mutex_unlock_iothread, G_poll (n + num (wait_objects s)) eff, Qemu_mutex_lock_iothread]
      @ cbs @ dispatch_events work @ [Select (Some \<lparr>tv_sec = 0, tv_usec = 0\<rparr>)]"
      by (simp add: s9_def trace_emit t8 t7 t6)
    ultimately show ?thesis using cb by blast
  qed
qed

lemma posix_wait_aborts:
  assumes prep: "g_main_context_prepare env (world s) = (prio, x1)"
      and q: "g_main_context_query env prio (poll_fds s) x1 = ((n, fw, fds), x2)"
      and n: "\<not> (0 \<le> n \<and> n \<le> POLL_FDS_SIZE)"
  shows "\<exists>s'. os_host_main_loop_wait_posix env timeout s = (Aborts, s') \<and>
           trace s' = trace s @ [G_main_context_prepare, G_main_context_query]"
proof -
  have "glib_select_fill env (nfds s, rfds s, wfds s, xfds s) timeout s =
     (Aborts, s\<lparr>max_priority := prio, n_poll_fds := n, poll_fds := fds, world := x2,
       trace := trace s @ [G_main_context_prepare, G_main_context_query]\<rparr>)"
    using prep q n by (simp add: glib_select_fill_def Let_def emit_def)
  then show ?thesis
    by (simp add: os_host_main_loop_wait_posix_def)
qed

lemma win32_wait_short_circuit:
  assumes pl: "polling_loop env (first_polling_entry s) 0 s = (ret, s0)" and r: "ret \<noteq> 0"
  shows "os_host_main_loop_wait_win32 env timeout s = (Returns ret, s0) \<and>
         trace s0 = trace s
           @ map (\<lambda>pe. Polling_func (pe_func pe) (pe_opaque pe)) (first_polling_entry s)"
  using trace_polling_loop [of env "first_polling_entry s" 0 s] r
  by (simp add: os_host_main_loop_wait_win32_def pl)

lemma win32_wait_stops:
  assumes pl: "polling_loop env (first_polling_entry s) 0 s = (0, s0)"
      and prep: "g_main_context_prepare env (world s0) = (prio, x1)"
      and q: "g_main_context_query env prio (poll_fds s) x1 = ((n, fw, fds), x2)"
      and n: "\<not> (0 \<le> n \<and> n \<le> POLL_FDS_SIZE \<and> n + num (wait_objects s) \<le> POLL_FDS_SIZE)"
  shows "\<exists>out s'. os_host_main_loop_wait_win32 env timeout s = (out, s') \<and>
           (out = Aborts \<or> out = Undefined) \<and>
           trace s' = trace s
             @ map (\<lambda>pe. Polling_func (pe_func pe) (pe_opaque pe)) (first_polling_entry s)
             @ [G_main_context_prepare, G_main_context_query]"
proof -
  let ?P = "map (\<lambda>pe. Polling_func (pe_func pe) (pe_opaque pe)) (first_polling_entry s)"
  obtain x0 where s0: "s0 = s\<lparr>world := x0, trace := trace s @ ?P\<rparr>"
    using polling_loop_frame [of env "first_polling_entry s" 0 s] pl by auto
  define s1 where "s1 = emit G_main_context_prepare (s0\<lparr>max_priority := prio, world := x1\<rparr>)"
  have q1: "g_main_context_query env (max_priority s1) (poll_fds s1) (world s1) =
            ((n, fw, fds), x2)"
    using q by (simp add: s1_def s0 emit_def)
  define s2 where "s2 = emit G_main_context_query
                             (s1\<lparr>n_poll_fds := n, poll_fds := fds, world := x2\<rparr>)"
  have w2: "wait_objects s2 = wait_objects s"
    by (simp add: s2_def s1_def s0 emit_def)
  have t2: "trace s2 = trace s @ ?P @ [G_main_context_prepare, G_main_context_query]"
    by (simp add: s2_def s1_def s0 emit_def)
  have "os_host_main_loop_wait_win32 env timeout s =
      (if \<not> (0 \<le> n \<and> n \<le> POLL_FDS_SIZE) then Aborts else Undefined, s2)"
    unfolding os_host_main_loop_wait_win32_def pl prod.case
    unfolding prep prod.case Let_def
    unfolding s1_def [symmetric] q1 prod.case
    unfolding s2_def [symmetric]
    using n w2 by auto
  then show ?thesis
    using t2 by auto
qed

lemma host_wait_extends:
  "prefix (trace s) (trace (snd (os_host_main_loop_wait env pf timeout s)))"
proof (cases pf)
  case Posix
  obtain prio x1 where prep: "g_main_context_prepare env (world s) = (prio, x1)"
    by (cases "g_main_context_prepare env (world s)") auto
  obtain n fw fds x2 where q: "g_main_context_query env prio (poll_fds s) x1 = ((n, fw, fds), x2)"
    by (metis prod_cases3 prod.collapse)
  show ?thesis
  proof (cases "0 \<le> n \<and> n \<le> POLL_FDS_SIZE")
    case True
    then show ?thesis
      using posix_wait_trace [OF prep q _ _ refl, of timeout] Posix
      by (auto simp: os_host_main_loop_wait_def)
  next
    case False
    then show ?thesis
      using posix_wait_aborts [OF prep q, of timeout] Posix
      by (auto simp: os_host_main_loop_wait_def)
  qed
next
  case Win32
  obtain ret s0 where pl: "polling_loop env (first_polling_entry s) 0 s = (ret, s0)"
    by (cases "polling_loop env (first_polling_entry s) 0 s") auto
  show ?thesis
  proof (cases "ret = 0")
    case False
    then show ?thesis
      using win32_wait_short_circuit [OF pl, of timeout] Win32
      by (auto simp: os_host_main_loop_wait_def)
  next
    case True
    obtain prio x1 where prep: "g_main_context_prepare env (world s0) = (prio, x1)"
      by (cases "g_main_context_prepare env (world s0)") auto
    obtain n fw fds x2 where q: "g_main_context_query env prio (poll_fds s) x1 = ((n, fw, fds), x2)"
      by (metis prod_cases3 prod.collapse)
    show ?thesis
    proof (cases "0 \<le> n \<and> n \<le> POLL_FDS_SIZE \<and> n + num (wait_objects s) \<le> POLL_FDS_SIZE")
      case True
      then show ?thesis
        using win32_wait_trace [OF pl [unfolded \<open>ret = 0\<close>] prep q _ _ _ refl, of timeout] Win32
        by (auto simp: os_host_main_loop_wait_def)
    next
      case False
      then show ?thesis
        using win32_wait_stops [OF pl [unfolded \<open>ret = 0\<close>] prep q, of timeout] Win32
        by (auto simp: os_host_main_loop_wait_def)
    qed
  qed
qed

subsection \<open>The wait and the driver\<close>





lemma filter_dispatch_events [simp]: "filter (is_blocking_wait pf) (dispatch_events work) = []"
  by (cases pf) (simp_all add: dispatch_events_def)

lemma lock_run_dispatch_events [simp]: "lock_run held (dispatch_events work) = held"
  by (simp add: dispatch_events_def)

lemma filter_polling [simp]:
  "filter (is_blocking_wait pf) (map (\<lambda>pe. Polling_func (pe_func pe) (pe_opaque pe)) pes) = []"
  by (induction pes) (cases pf; simp)+


lemma glib_select_poll_result:
  assumes "fds' = (if err then poll_fds s
                   else map (poll_fd env sets) (take (nat (n_poll_fds s)) (poll_fds s))
                        @ drop (nat (n_poll_fds s)) (poll_fds s))"
      and "g_main_context_check env (max_priority s) fds' (n_poll_fds s) (world s) = (work, x5)"
  shows "glib_select_poll env sets err s =
           s\<lparr>poll_fds := fds',
             world := (if work then g_main_context_dispatch env x5 else x5),
             trace := trace s @ G_main_context_check
                        # (if work then [G_main_context_dispatch] else [])\<rparr>"
proof (cases err)
  case True
  with assms show ?thesis
    by (simp add: glib_select_poll_def check_and_dispatch_def emit_def Let_def)
next
  case False
  with assms show ?thesis
    by (simp add: glib_select_poll_def check_and_dispatch_def emit_def Let_def)
qed

lemma posix_wait_result:
  assumes prep: "g_main_context_prepare env (world s) = (prio, x1)"
      and q: "g_main_context_query env prio (poll_fds s) x1 = ((n, fw, fds), x2)"
      and n: "0 \<le> n" "n \<le> POLL_FDS_SIZE"
      and eff: "eff = (if 0 \<le> sint fw \<and> fw < timeout then fw else timeout)"
      and sets: "fold (fill_fd env) (take (nat n) fds) (nfds s, rfds s, wfds s, xfds s) = (m, r, w, x)"
      and sel: "select env (m + 1) (r, w, x) (timeval_arg eff)
                  (if eff \<noteq> 0 then qemu_mutex_unlock_iothread env x2 else x2) =
                ((ret, r', w', x'), x4)"
      and fds': "fds' = (if ret < 0 then fds
                         else map (poll_fd env (r', w', x')) (take (nat n) fds) @ drop (nat n) fds)"
      and chk: "g_main_context_check env prio fds' n
                  (if eff \<noteq> 0 then qemu_mutex_lock_iothread env x4 else x4) = (work, x5)"
  shows "os_host_main_loop_wait_posix env timeout s =
           (Returns ret,
            s\<lparr>nfds := m, rfds := r', wfds := w', xfds := x', poll_fds := fds',
              n_poll_fds := n, max_priority := prio,
              world := (if work then g_main_context_dispatch env x5 else x5),
              trace := trace s @ [G_main_context_prepare, G_main_context_query]
                @ (if eff \<noteq> 0
                   then [Qemu_mutex_unlock_iothread, Select (timeval_arg eff),
                         Qemu_mutex_lock_iothread]
                   else [Select (timeval_arg eff)])
                @ G_main_context_check # (if work then [G_main_context_dispatch] else [])\<rparr>)"
proof -
  define s1 where "s1 = s\<lparr>max_priority := prio, n_poll_fds := n, poll_fds := fds, world := x2,
       trace := trace s @ [G_main_context_prepare, G_main_context_query]\<rparr>"
  have fill: "glib_select_fill env (nfds s, rfds s, wfds s, xfds s) timeout s =
      (Returns ((m, r, w, x), eff), s1)"
    unfolding s1_def eff sets [symmetric] using prep q n by (rule glib_select_fill_ok)
  define s2 where "s2 = s1\<lparr>nfds := m, rfds := r, wfds := w, xfds := x\<rparr>"
  define s3 where "s3 = (if eff > 0 then unlock_iothread env s2 else s2)"
  have s3: "nfds s3 = m" "rfds s3 = r" "wfds s3 = w" "xfds s3 = x"
    "world s3 = (if eff \<noteq> 0 then qemu_mutex_unlock_iothread env x2 else x2)"
    by (simp_all add: s3_def s2_def s1_def unlock_iothread_def emit_def word_gt_0)
  have sel': "select env (nfds s3 + 1) (rfds s3, wfds s3, xfds s3) (timeval_arg eff) (world s3) =
           ((ret, r', w', x'), x4)"
    unfolding s3 by (rule sel)
  define s4 where "s4 = emit (Select (timeval_arg eff))
                          (s3\<lparr>rfds := r', wfds := w', xfds := x', world := x4\<rparr>)"
  define s5 where "s5 = (if eff > 0 then lock_iothread env s4 else s4)"
  have res: "os_host_main_loop_wait_posix env timeout s =
      (Returns ret, glib_select_poll env (rfds s5, wfds s5, xfds s5) (ret < 0) s5)"
    unfolding os_host_main_loop_wait_posix_def fill Let_def prod.case outcome.case
      s2_def [symmetric]
    unfolding s3_def [symmetric] sel' prod.case
    unfolding s4_def [symmetric]
    unfolding s5_def [symmetric]
    by (rule refl)
  have s5: "s5 = s\<lparr>nfds := m, rfds := r', wfds := w', xfds := x', poll_fds := fds,
              n_poll_fds := n, max_priority := prio,
              world := (if eff \<noteq> 0 then qemu_mutex_lock_iothread env x4 else x4),
              trace := trace s @ [G_main_context_prepare, G_main_context_query]
                @ (if eff \<noteq> 0
                   then [Qemu_mutex_unlock_iothread, Select (timeval_arg eff),
                         Qemu_mutex_lock_iothread]
                   else [Select (timeval_arg eff)])\<rparr>"
    by (simp add: s5_def s4_def s3_def s2_def s1_def unlock_iothread_def lock_iothread_def
        emit_def word_gt_0)
  have f5: "rfds s5 = r'" "wfds s5 = w'" "xfds s5 = x'" "poll_fds s5 = fds" "n_poll_fds s5 = n"
    "max_priority s5 = prio" "world s5 = (if eff \<noteq> 0 then qemu_mutex_lock_iothread env x4 else x4)"
    by (simp_all add: s5)
  have p: "glib_select_poll env (r', w', x') (ret < 0) s5 =
           s5\<lparr>poll_fds := fds',
             world := (if work then g_main_context_dispatch env x5 else x5),
             trace := trace s5 @ G_main_context_check
                        # (if work then [G_main_context_dispatch] else [])\<rparr>"
  proof (rule glib_select_poll_result)
    show "fds' = (if ret < 0 then poll_fds s5
                   else map (poll_fd env (r', w', x')) (take (nat (n_poll_fds s5)) (poll_fds s5))
                        @ drop (nat (n_poll_fds s5)) (poll_fds s5))"
      unfolding f5 by (rule fds')
    show "g_main_context_check env (max_priority s5) fds' (n_poll_fds s5) (world s5) = (work, x5)"
      unfolding f5 by (rule chk)
  qed
  show ?thesis
    unfolding res f5 p by (simp add: s5)
qed

lemma lock_run_posix_events:
  "lock_run True
     ([G_main_context_prepare, G_main_context_query]
      @ (if eff \<noteq> 0
         then [Qemu_mutex_unlock_iothread, Select tv, Qemu_mutex_lock_iothread]
         else [Select tv])
      @ G_main_context_check # (if work then [G_main_context_dispatch] else []))"
  by simp

text \<open>
  Claim C7. Without \<^verbatim>\<open>_WIN32\<close>, when GLib reports no more sources than \<^verbatim>\<open>poll_fds\<close>
  holds, \<^verbatim>\<open>os_host_main_loop_wait\<close> returns what \<^verbatim>\<open>select\<close> returned, in the state
  written out below. With \<open>x2\<close> the outside state the fill leaves, \<^verbatim>\<open>select\<close> is
  called once, on \<^verbatim>\<open>qemu_mutex_unlock_iothread\<close> applied to \<open>x2\<close> when the effective
  timeout is not zero and on \<open>x2\<close> itself when it is zero; with \<open>x4\<close> the outside
  state \<^verbatim>\<open>select\<close> leaves, the check of GLib, and the dispatch after it, run on
  \<^verbatim>\<open>qemu_mutex_lock_iothread\<close> applied to \<open>x4\<close> in the first case and on \<open>x4\<close> in the
  second. The lock is released and taken nowhere else: in the log every call but
  \<^verbatim>\<open>select\<close> is made with the lock held.
\<close>

theorem posix_wait_releases_lock_around_select:
  assumes "g_main_context_prepare env (world s) = (prio, x1)"
      and "g_main_context_query env prio (poll_fds s) x1 = ((n, fw, fds), x2)"
      and "0 \<le> n" and "n \<le> POLL_FDS_SIZE"
      and "eff = (if 0 \<le> sint fw \<and> fw < timeout then fw else timeout)"
      and "fold (fill_fd env) (take (nat n) fds) (nfds s, rfds s, wfds s, xfds s) = (m, r, w, x)"
      and "select env (m + 1) (r, w, x) (timeval_arg eff)
             (if eff \<noteq> 0 then qemu_mutex_unlock_iothread env x2 else x2) =
           ((ret, r', w', x'), x4)"
      and "fds' = (if ret < 0 then fds
                   else map (poll_fd env (r', w', x')) (take (nat n) fds) @ drop (nat n) fds)"
      and "g_main_context_check env prio fds' n
             (if eff \<noteq> 0 then qemu_mutex_lock_iothread env x4 else x4) = (work, x5)"
  shows "os_host_main_loop_wait env Posix timeout s =
           (Returns ret,
            s\<lparr>nfds := m, rfds := r', wfds := w', xfds := x', poll_fds := fds',
              n_poll_fds := n, max_priority := prio,
              world := (if work then g_main_context_dispatch env x5 else x5),
              trace := trace s @ [G_main_context_prepare, G_main_context_query]
                @ (if eff \<noteq> 0
                   then [Qemu_mutex_unlock_iothread, Select (timeval_arg eff),
                         Qemu_mutex_lock_iothread]
                   else [Select (timeval_arg eff)])
                @ G_main_context_check # (if work then [G_main_context_dispatch] else [])\<rparr>) \<and>
         lock_run True
           (drop (length (trace s)) (trace (snd (os_host_main_loop_wait env Posix timeout s))))"
proof -
  note r = posix_wait_result [OF assms]
  have "os_host_main_loop_wait env Posix timeout s = os_host_main_loop_wait_posix env timeout s"
    by (simp add: os_host_main_loop_wait_def)
  then show ?thesis
    unfolding r using lock_run_posix_events [of eff "timeval_arg eff" work]
    by (simp add: r)
qed

text \<open>
  Claim C6. \<^verbatim>\<open>main_loop_wait\<close> starts from the timeout 0 or \<^verbatim>\<open>UINT32_MAX\<close> and
  from empty descriptor sets with \<^verbatim>\<open>nfds = -1\<close>. With \<^verbatim>\<open>CONFIG_SLIRP\<close> the network
  stack shrinks the timeout and then fills the sets. The I/O handlers fill the sets
  they get from there, in the outside state they get from there.
  \<^verbatim>\<open>os_host_main_loop_wait\<close> is called with that timeout on the state \<open>s3\<close> that
  holds these sets and this outside state, and only adds to the log. When it
  returns \<open>ret\<close>, whatever its sign, the outside state becomes what the poll of the
  I/O handlers with \<open>ret\<close>, then (with \<^verbatim>\<open>CONFIG_SLIRP\<close>) the poll of the network stack
  with \<^verbatim>\<open>ret < 0\<close>, then the run of all timers make of it, in this order, nothing
  else changes, and \<open>ret\<close> is returned. When it does not return,
  \<^verbatim>\<open>main_loop_wait\<close> ends there.
\<close>

theorem main_loop_wait_order:
  assumes t0: "t0 = (if nonblocking \<noteq> 0 then 0 else UINT32_MAX)"
      and su: "(if CONFIG_SLIRP env then slirp_update_timeout env t0 (world s)
                else (t0, world s)) = (t1, x1)"
      and sf: "(if CONFIG_SLIRP env then slirp_select_fill env (- 1, {}, {}, {}) x1
                else ((- 1, {}, {}, {}), x1)) = ((m1, r1, w1, xs1), x2)"
      and fill: "qemu_iohandler_fill env (m1, r1, w1, xs1) x2 = ((m2, r2, w2, xs2), x3)"
      and s3: "s3 = s\<lparr>nfds := m2, rfds := r2, wfds := w2, xfds := xs2, world := x3,
                     trace := trace s
                       @ (if CONFIG_SLIRP env
                          then [Slirp_update_timeout t0, Slirp_select_fill (- 1) {} {} {}]
                          else [])
                       @ [Qemu_iohandler_fill m1 r1 w1 xs1]\<rparr>"
      and host: "os_host_main_loop_wait env pf t1 s3 = (out, s4)"
  shows "main_loop_wait env pf nonblocking s =
           (case out of
              Returns ret \<Rightarrow>
                (Returns ret,
                 s4\<lparr>world :=
                      qemu_run_all_timers env
                        ((if CONFIG_SLIRP env
                          then slirp_select_poll env (rfds s4, wfds s4, xfds s4) (ret < 0)
                          else (\<lambda>x. x))
                           (qemu_iohandler_poll env (rfds s4, wfds s4, xfds s4) ret (world s4))),
                    trace := trace s4 @ [Qemu_iohandler_poll ret]
                      @ (if CONFIG_SLIRP env then [Slirp_select_poll (ret < 0)] else [])
                      @ [Qemu_run_all_timers]\<rparr>)
            | Aborts \<Rightarrow> (Aborts, s4)
            | Undefined \<Rightarrow> (Undefined, s4)) \<and>
         prefix (trace s3) (trace s4)"
proof -
  have ext: "prefix (trace s3) (trace s4)"
    using host_wait_extends [of s3 env pf t1] by (simp add: host)
  have "main_loop_wait env pf nonblocking s =
           (case out of
              Returns ret \<Rightarrow>
                (Returns ret,
                 s4\<lparr>world :=
                      qemu_run_all_timers env
                        ((if CONFIG_SLIRP env
                          then slirp_select_poll env (rfds s4, wfds s4, xfds s4) (ret < 0)
                          else (\<lambda>x. x))
                           (qemu_iohandler_poll env (rfds s4, wfds s4, xfds s4) ret (world s4))),
                    trace := trace s4 @ [Qemu_iohandler_poll ret]
                      @ (if CONFIG_SLIRP env then [Slirp_select_poll (ret < 0)] else [])
                      @ [Qemu_run_all_timers]\<rparr>)
            | Aborts \<Rightarrow> (Aborts, s4)
            | Undefined \<Rightarrow> (Undefined, s4))"
  proof (cases "CONFIG_SLIRP env")
    case True
    have su': "slirp_update_timeout env (if nonblocking \<noteq> 0 then 0 else UINT32_MAX) (world s) = (t1, x1)"
      using su True by (simp add: t0)
    have sf': "slirp_select_fill env (- 1, {}, {}, {}) x1 = ((m1, r1, w1, xs1), x2)"
      using sf True by simp
    have host': "os_host_main_loop_wait env pf t1
        (s\<lparr>nfds := m2, rfds := r2, wfds := w2, xfds := xs2, world := x3,
           trace := trace s @ [Slirp_update_timeout (if nonblocking \<noteq> 0 then 0 else UINT32_MAX),
                     Slirp_select_fill (- 1) {} {} {}, Qemu_iohandler_fill m1 r1 w1 xs1]\<rparr>) = (out, s4)"
      using host True by (simp add: s3 t0)
    show ?thesis
      using True su' sf' fill host'
      by (cases out) (simp_all add: main_loop_wait_def Let_def emit_def)
  next
    case False
    have x: "t1 = (if nonblocking \<noteq> 0 then 0 else UINT32_MAX)" "x1 = world s"
      "m1 = - 1" "r1 = {}" "w1 = {}" "xs1 = {}" "x2 = world s"
      using su sf False by (simp_all add: t0)
    have fill': "qemu_iohandler_fill env (- 1, {}, {}, {}) (world s) = ((m2, r2, w2, xs2), x3)"
      using fill by (simp add: x)
    have host': "os_host_main_loop_wait env pf (if nonblocking \<noteq> 0 then 0 else UINT32_MAX)
        (s\<lparr>nfds := m2, rfds := r2, wfds := w2, xfds := xs2, world := x3,
           trace := trace s @ [Qemu_iohandler_fill (- 1) {} {} {}]\<rparr>) = (out, s4)"
      using host False by (simp add: s3 x)
    show ?thesis
      using False fill' host'
      by (cases out) (simp_all add: main_loop_wait_def Let_def emit_def)
  qed
  with ext show ?thesis by simp
qed


subsection \<open>Runs on the concrete environment\<close>



text \<open>The definitions to unfold when a call is run on given collaborators.\<close>

lemmas run_defs =
  main_loop_wait_def os_host_main_loop_wait_def os_host_main_loop_wait_posix_def
  os_host_main_loop_wait_win32_def glib_select_fill_def glib_select_poll_def
  check_and_dispatch_def emit_def unlock_iothread_def lock_iothread_def
  timeval_arg_def UINT32_MAX_def POLL_FDS_SIZE_def Let_def add_wait_fds_def
  wait_objects_init_def

theorem posix_wait_releases_lock_around_select_witness:
  "os_host_main_loop_wait ordered_env Posix 1000 (main_loop_init []) =
     (Returns (- 1),
      (main_loop_init [])
        \<lparr>world := [4, 5, 6, 7, 8, 9, 10],
         trace := [G_main_context_prepare, G_main_context_query, Qemu_mutex_unlock_iothread,
                   Select (Some \<lparr>tv_sec = 1, tv_usec = 0\<rparr>), Qemu_mutex_lock_iothread,
                   G_main_context_check, G_main_context_dispatch]\<rparr>) \<and>
   os_host_main_loop_wait ordered_env Posix 0 (main_loop_init []) =
     (Returns (- 1),
      (main_loop_init [])
        \<lparr>world := [4, 5, 7, 9, 10],
         trace := [G_main_context_prepare, G_main_context_query,
                   Select (Some \<lparr>tv_sec = 0, tv_usec = 0\<rparr>),
                   G_main_context_check, G_main_context_dispatch]\<rparr>)"
proof -
  let ?S = "main_loop_init [] :: nat list main_loop"
  have prep: "g_main_context_prepare ordered_env (world ?S) = (0, [4])"
    by (simp add: ordered_env_def main_loop_init_def)
  have q: "g_main_context_query ordered_env 0 (poll_fds ?S) [4] = ((0, - 1, poll_fds ?S), [4, 5])"
    by (simp add: ordered_env_def)
  have n: "(0::int) \<le> 0" "0 \<le> POLL_FDS_SIZE"
    by (simp_all add: POLL_FDS_SIZE_def)
  have e1: "(1000 :: 32 word) = (if 0 \<le> sint (- 1 :: 32 word) \<and> - 1 < (1000 :: 32 word) then - 1 else 1000)"
    by simp
  have e0: "(0 :: 32 word) = (if 0 \<le> sint (- 1 :: 32 word) \<and> - 1 < (0 :: 32 word) then - 1 else 0)"
    by simp
  have sets: "fold (fill_fd ordered_env) (take (nat 0) (poll_fds ?S)) (nfds ?S, rfds ?S, wfds ?S, xfds ?S) =
              (0, {}, {}, {})"
    by (simp add: main_loop_init_def)
  have sel1: "select ordered_env (0 + 1) ({}, {}, {}) (timeval_arg 1000)
             (if (1000 :: 32 word) \<noteq> 0 then qemu_mutex_unlock_iothread ordered_env [4, 5] else [4, 5]) =
           ((- 1, {}, {}, {}), [4, 5, 6, 7])"
    by (simp add: ordered_env_def)
  have sel0: "select ordered_env (0 + 1) ({}, {}, {}) (timeval_arg 0)
             (if (0 :: 32 word) \<noteq> 0 then qemu_mutex_unlock_iothread ordered_env [4, 5] else [4, 5]) =
           ((- 1, {}, {}, {}), [4, 5, 7])"
    by (simp add: ordered_env_def)
  have f: "poll_fds ?S = (if (- 1 :: int) < 0 then poll_fds ?S
                   else map (poll_fd ordered_env ({}, {}, {})) (take (nat 0) (poll_fds ?S))
                        @ drop (nat 0) (poll_fds ?S))"
    by simp
  have chk1: "g_main_context_check ordered_env 0 (poll_fds ?S) 0
             (if (1000 :: 32 word) \<noteq> 0 then qemu_mutex_lock_iothread ordered_env [4, 5, 6, 7]
              else [4, 5, 6, 7]) = (True, [4, 5, 6, 7, 8, 9])"
    by (simp add: ordered_env_def)
  have chk0: "g_main_context_check ordered_env 0 (poll_fds ?S) 0
             (if (0 :: 32 word) \<noteq> 0 then qemu_mutex_lock_iothread ordered_env [4, 5, 7]
              else [4, 5, 7]) = (True, [4, 5, 7, 9])"
    by (simp add: ordered_env_def)
  note a = posix_wait_releases_lock_around_select
    [OF prep q n e1 sets sel1 f chk1, THEN conjunct1]
  note b = posix_wait_releases_lock_around_select
    [OF prep q n e0 sets sel0 f chk0, THEN conjunct1]
  show ?thesis
    unfolding a b
    by (simp add: main_loop_init_def ordered_env_def timeval_arg_def UINT32_MAX_def)
qed

text \<open>
  Claim C9. While \<^verbatim>\<open>qemu_aio_context\<close> is \<^verbatim>\<open>NULL\<close>, as it is until
  \<^verbatim>\<open>qemu_init_main_loop\<close> has made the context, \<^verbatim>\<open>qemu_notify_event\<close> returns at once:
  it calls nothing and the state after it is the state before it.
\<close>

theorem notify_before_init_is_noop:
  "qemu_aio_context s = 0 \<Longrightarrow> qemu_notify_event env s = s"
  by (simp add: qemu_notify_event_def)

theorem notify_before_init_is_noop_witness:
  "qemu_aio_context (main_loop_init ()) = 0 \<and>
   qemu_notify_event example_env (main_loop_init ()) = main_loop_init ()"
proof -
  have z: "qemu_aio_context (main_loop_init ()) = 0"
    by (simp add: main_loop_init_def)
  from notify_before_init_is_noop [OF z, of example_env] z show ?thesis
    by simp
qed

text \<open>
  Claim C4, on the code. With \<^verbatim>\<open>_WIN32\<close>, \<^verbatim>\<open>main_loop_wait(0)\<close> is called twice. In
  the first call \<^verbatim>\<open>select\<close> with the zero timeout reports a ready descriptor (it
  returns 1). The second call still gives \<^verbatim>\<open>g_poll\<close> the timeout of 1000 ms, not 0:
  the assignment \<^verbatim>\<open>timeout = 0\<close> of the first call was to its own parameter.
\<close>

theorem win32_readiness_does_not_zero_next_timeout:
  "fst (main_loop_wait example_env Win32 0 (main_loop_init ())) = Returns 1 \<and>
   trace (snd (main_loop_wait example_env Win32 0
            (snd (main_loop_wait example_env Win32 0 (main_loop_init ()))))) =
   [Slirp_update_timeout 4294967295, Slirp_select_fill (- 1) {} {} {},
    Qemu_iohandler_fill (- 1) {} {} {}, G_main_context_prepare,
    G_main_context_query, Qemu_mutex_unlock_iothread, G_poll 0 1000,
    Qemu_mutex_lock_iothread, G_main_context_check,
    Select (Some \<lparr>tv_sec = 0, tv_usec = 0\<rparr>), Qemu_iohandler_poll 1,
    Slirp_select_poll False, Qemu_run_all_timers,
    Slirp_update_timeout 4294967295, Slirp_select_fill (- 1) {} {} {},
    Qemu_iohandler_fill (- 1) {} {} {}, G_main_context_prepare,
    G_main_context_query, Qemu_mutex_unlock_iothread, G_poll 0 1000,
    Qemu_mutex_lock_iothread, G_main_context_check,
    Select (Some \<lparr>tv_sec = 0, tv_usec = 0\<rparr>), Qemu_iohandler_poll 1,
    Slirp_select_poll False, Qemu_run_all_timers]"
  by (simp add: run_defs example_env_def main_loop_init_def)



theorem main_loop_wait_order_witness:
  "fst (main_loop_wait ordered_env Posix 0 (main_loop_init [])) = Returns (- 1) \<and>
   world (snd (main_loop_wait ordered_env Posix 0 (main_loop_init []))) =
     [1, 2, 3, 4, 5, 6, 7, 8, 9, 10, 11, 12, 13] \<and>
   trace (snd (main_loop_wait ordered_env Posix 0 (main_loop_init []))) =
     [Slirp_update_timeout 4294967295, Slirp_select_fill (- 1) {} {} {},
      Qemu_iohandler_fill 5 {} {5} {}, G_main_context_prepare,
      G_main_context_query, Qemu_mutex_unlock_iothread,
      Select (Some \<lparr>tv_sec = 1, tv_usec = 0\<rparr>), Qemu_mutex_lock_iothread,
      G_main_context_check, G_main_context_dispatch, Qemu_iohandler_poll (- 1),
      Slirp_select_poll True, Qemu_run_all_timers] \<and>
   nfds (snd (main_loop_wait ordered_env Posix 0 (main_loop_init []))) = 5 \<and>
   rfds (snd (main_loop_wait ordered_env Posix 0 (main_loop_init []))) = {3} \<and>
   wfds (snd (main_loop_wait ordered_env Posix 0 (main_loop_init []))) = {5}"
proof -
  let ?S = "main_loop_init [] :: nat list main_loop"
  let ?S3 = "?S\<lparr>nfds := 5, rfds := {3}, wfds := {5}, xfds := {}, world := [1, 2, 3],
                     trace := trace ?S
                       @ (if CONFIG_SLIRP ordered_env
                          then [Slirp_update_timeout 4294967295, Slirp_select_fill (- 1) {} {} {}]
                          else [])
                       @ [Qemu_iohandler_fill 5 {} {5} {}]\<rparr>"
  let ?S4 = "?S\<lparr>nfds := 5, rfds := {3}, wfds := {5}, xfds := {},
      world := [1, 2, 3, 4, 5, 6, 7, 8, 9, 10],
      trace := [Slirp_update_timeout 4294967295, Slirp_select_fill (- 1) {} {} {},
        Qemu_iohandler_fill 5 {} {5} {}, G_main_context_prepare,
        G_main_context_query, Qemu_mutex_unlock_iothread,
        Select (Some \<lparr>tv_sec = 1, tv_usec = 0\<rparr>), Qemu_mutex_lock_iothread,
        G_main_context_check, G_main_context_dispatch]\<rparr>"
  have t0: "(4294967295 :: 32 word) = (if (0::int) \<noteq> 0 then 0 else UINT32_MAX)"
    by (simp add: UINT32_MAX_def)
  have su: "(if CONFIG_SLIRP ordered_env
             then slirp_update_timeout ordered_env 4294967295 (world ?S)
             else (4294967295, world ?S)) = (1000, [1])"
    by (simp add: ordered_env_def main_loop_init_def)
  have sf: "(if CONFIG_SLIRP ordered_env then slirp_select_fill ordered_env (- 1, {}, {}, {}) [1]
             else ((- 1, {}, {}, {}), [1])) = ((5, {}, {5}, {}), [1, 2])"
    by (simp add: ordered_env_def)
  have fill: "qemu_iohandler_fill ordered_env (5, {}, {5}, {}) [1, 2] = ((5, {3}, {5}, {}), [1, 2, 3])"
    by (simp add: ordered_env_def)
  have host: "os_host_main_loop_wait ordered_env Posix 1000 ?S3 = (Returns (- 1), ?S4)"
    by (simp add: os_host_main_loop_wait_def os_host_main_loop_wait_posix_def
        glib_select_fill_def glib_select_poll_def check_and_dispatch_def emit_def
        unlock_iothread_def lock_iothread_def timeval_arg_def UINT32_MAX_def POLL_FDS_SIZE_def
        Let_def ordered_env_def main_loop_init_def)
  note t = main_loop_wait_order [OF t0 su sf fill refl host, THEN conjunct1]
  show ?thesis
    unfolding t by (simp add: ordered_env_def main_loop_init_def)
qed

end
